theory Spec2Isabelle
  imports Complex_Main
begin

section \<open>The dynamic-range compressor of sndfilter (src/compressor.c)\<close>

text \<open>
  A shallow embedding of \<^verbatim>\<open>compressor.c\<close>, in two layers.

  The formulas of the source are first read over the reals (\<open>db2lin\<close>, \<open>kneecurve\<close>,
  \<open>compcurve\<close>, the coefficients of the release polynomial): this is the exact curve and
  the exact polynomial, about which the results on continuity, monotonicity and
  interpolation are stated.

  The program itself is modelled on a type \<open>cfloat\<close> of single-precision values: a finite
  real, the two infinities, and NaN.  Addition, subtraction, multiplication, division and
  the square root round their exact result to the nearest binary32 value, ties to even,
  overflow to an infinity and follow the IEEE rules for infinities and NaN.  Every
  operation of the source is rounded on its own (\<^verbatim>\<open>FLT_EVAL_METHOD\<close> 0, no contraction to
  a fused multiply-add).  The
  functions of the C library (\<^verbatim>\<open>powf\<close>, \<^verbatim>\<open>expf\<close>, \<^verbatim>\<open>log10f\<close>, \<^verbatim>\<open>sinf\<close>, \<^verbatim>\<open>asinf\<close>) are not
  fixed to the last bit by any standard; they are a parameter \<open>lm\<close> of the model, and the
  general results hold for every such library.  \<open>libm_c99\<close> is one library, with correctly
  rounded results and the special cases of C99 Annex F; it is used for concrete runs.
  The functions of the program that share a name with a real formula carry the suffix
  \<open>_f\<close>.

  Not modelled: the sign of a zero, and the bounds of \<^verbatim>\<open>int\<close> other than in the
  conversion that yields \<^verbatim>\<open>delaybufsize\<close>.  The fields of the parameter structure are
  taken to hold finite values.
\<close>

subsection \<open>Single-precision values\<close>

datatype cfloat = Fin real | PInf | NInf | NaN

instantiation cfloat :: "{zero, one}"
begin

definition zero_cfloat :: cfloat where
  "zero_cfloat = Fin 0"

definition one_cfloat :: cfloat where
  "one_cfloat = Fin 1"

instance ..

end

text \<open>Rounding to an integer, ties to the even one.\<close>

definition rhe :: "real \<Rightarrow> int" where
  "rhe t =
     (let f = \<lfloor>t\<rfloor>; d = t - of_int f
      in if d < 1 / 2 then f else if 1 / 2 < d then f + 1 else if even f then f else f + 1)"

text \<open>
  The binary exponent of a value (not below that of the subnormal numbers), the distance
  of neighbouring binary32 values there, and rounding to the nearest of them.
\<close>

definition fexp :: "real \<Rightarrow> int" where
  "fexp x = max (- 126) \<lfloor>log 2 \<bar>x\<bar>\<rfloor>"

definition ulp :: "real \<Rightarrow> real" where
  "ulp x = 2 powr (of_int (fexp x) - 23)"

definition rnd :: "real \<Rightarrow> real" where
  "rnd x = (if x = 0 then 0 else of_int (rhe (x / ulp x)) * ulp x)"

text \<open>\<^verbatim>\<open>FLT_MAX\<close>, and the result of an operation whose exact value is \<open>x\<close>.\<close>

definition flt_max :: real where
  "flt_max = (2 ^ 24 - 1) * 2 ^ 104"

definition fl :: "real \<Rightarrow> cfloat" where
  "fl x = (let r = rnd x in if flt_max < r then PInf else if r < - flt_max then NInf else Fin r)"

definition is_finite :: "cfloat \<Rightarrow> bool" where
  "is_finite a = (case a of Fin x \<Rightarrow> True | _ \<Rightarrow> False)"

fun fneg :: "cfloat \<Rightarrow> cfloat" where
  "fneg (Fin a) = Fin (- a)"
| "fneg PInf = NInf"
| "fneg NInf = PInf"
| "fneg NaN = NaN"

fun fadd :: "cfloat \<Rightarrow> cfloat \<Rightarrow> cfloat" where
  "fadd (Fin a) (Fin b) = fl (a + b)"
| "fadd NaN b = NaN"
| "fadd a NaN = NaN"
| "fadd PInf NInf = NaN"
| "fadd NInf PInf = NaN"
| "fadd PInf b = PInf"
| "fadd NInf b = NInf"
| "fadd a PInf = PInf"
| "fadd a NInf = NInf"

definition fsub :: "cfloat \<Rightarrow> cfloat \<Rightarrow> cfloat" where
  "fsub a b = fadd a (fneg b)"

text \<open>An infinity of the sign of \<open>x\<close>, for \<open>x \<noteq> 0\<close>.\<close>

definition signed_inf :: "real \<Rightarrow> cfloat" where
  "signed_inf x = (if 0 < x then PInf else NInf)"

fun fmul :: "cfloat \<Rightarrow> cfloat \<Rightarrow> cfloat" where
  "fmul (Fin a) (Fin b) = fl (a * b)"
| "fmul NaN b = NaN"
| "fmul a NaN = NaN"
| "fmul PInf (Fin b) = (if b = 0 then NaN else signed_inf b)"
| "fmul NInf (Fin b) = (if b = 0 then NaN else signed_inf (- b))"
| "fmul (Fin a) PInf = (if a = 0 then NaN else signed_inf a)"
| "fmul (Fin a) NInf = (if a = 0 then NaN else signed_inf (- a))"
| "fmul PInf PInf = PInf"
| "fmul NInf NInf = PInf"
| "fmul PInf NInf = NInf"
| "fmul NInf PInf = NInf"

text \<open>Division; a zero divisor counts as positive.\<close>

fun fdiv :: "cfloat \<Rightarrow> cfloat \<Rightarrow> cfloat" where
  "fdiv (Fin a) (Fin b) =
     (if b = 0 then (if a = 0 then NaN else signed_inf a) else fl (a / b))"
| "fdiv NaN b = NaN"
| "fdiv a NaN = NaN"
| "fdiv (Fin a) PInf = Fin 0"
| "fdiv (Fin a) NInf = Fin 0"
| "fdiv PInf (Fin b) = (if 0 \<le> b then PInf else NInf)"
| "fdiv NInf (Fin b) = (if 0 \<le> b then NInf else PInf)"
| "fdiv PInf PInf = NaN"
| "fdiv PInf NInf = NaN"
| "fdiv NInf PInf = NaN"
| "fdiv NInf NInf = NaN"

fun fsqrt :: "cfloat \<Rightarrow> cfloat" where
  "fsqrt (Fin a) = (if a < 0 then NaN else fl (sqrt a))"
| "fsqrt PInf = PInf"
| "fsqrt NInf = NaN"
| "fsqrt NaN = NaN"

text \<open>The comparisons; every comparison with NaN is false.\<close>

fun flt :: "cfloat \<Rightarrow> cfloat \<Rightarrow> bool" where
  "flt (Fin a) (Fin b) = (a < b)"
| "flt NaN b = False"
| "flt a NaN = False"
| "flt a NInf = False"
| "flt PInf b = False"
| "flt NInf b = True"
| "flt a PInf = True"

definition fgt :: "cfloat \<Rightarrow> cfloat \<Rightarrow> bool" where
  "fgt a b = flt b a"

fun feq :: "cfloat \<Rightarrow> cfloat \<Rightarrow> bool" where
  "feq (Fin a) (Fin b) = (a = b)"
| "feq PInf PInf = True"
| "feq NInf NInf = True"
| "feq a b = False"

definition fle :: "cfloat \<Rightarrow> cfloat \<Rightarrow> bool" where
  "fle a b = (flt a b \<or> feq a b)"

text \<open>The functions of the C library that the program calls.\<close>

record libm =
  powf :: "cfloat \<Rightarrow> cfloat \<Rightarrow> cfloat"
  expf :: "cfloat \<Rightarrow> cfloat"
  log10f :: "cfloat \<Rightarrow> cfloat"
  sinf :: "cfloat \<Rightarrow> cfloat"
  asinf :: "cfloat \<Rightarrow> cfloat"

text \<open>
  A library with correctly rounded results and the special cases of C99 Annex F.
\<close>

definition is_int :: "real \<Rightarrow> bool" where
  "is_int b = (b = of_int \<lfloor>b\<rfloor>)"

fun c99_powf :: "cfloat \<Rightarrow> cfloat \<Rightarrow> cfloat" where
  "c99_powf (Fin a) (Fin b) =
     (if b = 0 \<or> a = 1 then Fin 1
      else if 0 < a then fl (a powr b)
      else if a = 0 then (if 0 < b then Fin 0 else PInf)
      else if is_int b then fl ((if even \<lfloor>b\<rfloor> then 1 else - 1) * ((- a) powr b))
      else NaN)"
| "c99_powf NaN (Fin b) = (if b = 0 then Fin 1 else NaN)"
| "c99_powf PInf (Fin b) = (if b = 0 then Fin 1 else if 0 < b then PInf else Fin 0)"
| "c99_powf NInf (Fin b) =
     (if b = 0 then Fin 1
      else if 0 < b then (if is_int b \<and> odd \<lfloor>b\<rfloor> then NInf else PInf)
      else Fin 0)"
| "c99_powf (Fin a) NaN = (if a = 1 then Fin 1 else NaN)"
| "c99_powf (Fin a) PInf = (if \<bar>a\<bar> < 1 then Fin 0 else if \<bar>a\<bar> = 1 then Fin 1 else PInf)"
| "c99_powf (Fin a) NInf = (if \<bar>a\<bar> < 1 then PInf else if \<bar>a\<bar> = 1 then Fin 1 else Fin 0)"
| "c99_powf NaN y = NaN"
| "c99_powf x NaN = NaN"
| "c99_powf PInf PInf = PInf"
| "c99_powf PInf NInf = Fin 0"
| "c99_powf NInf PInf = PInf"
| "c99_powf NInf NInf = Fin 0"

fun c99_expf :: "cfloat \<Rightarrow> cfloat" where
  "c99_expf (Fin a) = fl (exp a)"
| "c99_expf PInf = PInf"
| "c99_expf NInf = Fin 0"
| "c99_expf NaN = NaN"

fun c99_log10f :: "cfloat \<Rightarrow> cfloat" where
  "c99_log10f (Fin a) = (if 0 < a then fl (log 10 a) else if a = 0 then NInf else NaN)"
| "c99_log10f PInf = PInf"
| "c99_log10f NInf = NaN"
| "c99_log10f NaN = NaN"

fun c99_sinf :: "cfloat \<Rightarrow> cfloat" where
  "c99_sinf (Fin a) = fl (sin a)"
| "c99_sinf x = NaN"

fun c99_asinf :: "cfloat \<Rightarrow> cfloat" where
  "c99_asinf (Fin a) = (if \<bar>a\<bar> \<le> 1 then fl (arcsin a) else NaN)"
| "c99_asinf x = NaN"

definition libm_c99 :: libm where
  "libm_c99 =
     \<lparr> powf = c99_powf, expf = c99_expf, log10f = c99_log10f, sinf = c99_sinf, asinf = c99_asinf \<rparr>"

subsection \<open>Data\<close>

text \<open>\<^verbatim>\<open>sf_sample_st\<close>: one stereo sample.\<close>

record sf_sample_st =
  L :: cfloat
  R :: cfloat

text \<open>
  \<^verbatim>\<open>sf_snd_st\<close>: the sample array with its element count and its sample rate.  The field
  \<^verbatim>\<open>size\<close> is called \<open>size_snd\<close> here.
\<close>

record sf_snd_st =
  samples :: "sf_sample_st list"
  size_snd :: int
  rate :: int

record sf_compressor_params_st =
  threshold :: real
  knee :: real
  ratio :: real
  attack :: real
  release :: real
  predelay :: real
  releasezone1 :: real
  releasezone2 :: real
  releasezone3 :: real
  releasezone4 :: real
  postgain :: real
  wet :: real

definition sf_compressor_defaults :: sf_compressor_params_st where
  "sf_compressor_defaults =
     \<lparr> threshold = -24, knee = 30, ratio = 12, attack = 3 / 1000, release = 1 / 4,
       predelay = 6 / 1000, releasezone1 = 9 / 100, releasezone2 = 16 / 100,
       releasezone3 = 42 / 100, releasezone4 = 98 / 100, postgain = 0, wet = 1 \<rparr>"

subsection \<open>The formulas of the source over the reals\<close>

definition db2lin :: "real \<Rightarrow> real" where
  "db2lin db = 10 powr (0.05 * db)"

definition lin2db :: "real \<Rightarrow> real" where
  "lin2db lin = 20 * log 10 lin"

definition kneecurve :: "real \<Rightarrow> real \<Rightarrow> real \<Rightarrow> real" where
  "kneecurve x k linearthreshold =
     linearthreshold + (1 - exp (- k * (x - linearthreshold))) / k"

definition kneeslope :: "real \<Rightarrow> real \<Rightarrow> real \<Rightarrow> real" where
  "kneeslope x k linearthreshold =
     k * x / ((k * linearthreshold + 1) * exp (k * (x - linearthreshold)) - 1)"

definition compcurve ::
  "real \<Rightarrow> real \<Rightarrow> real \<Rightarrow> real \<Rightarrow> real \<Rightarrow> real \<Rightarrow> real \<Rightarrow> real \<Rightarrow> real" where
  "compcurve x k slope linearthreshold linearthresholdknee thresh kn kneedboffset =
     (if x < linearthreshold then x
      else if kn \<le> 0 then db2lin (thresh + slope * (lin2db x - thresh))
      else if x < linearthresholdknee then kneecurve x k linearthreshold
      else db2lin (kneedboffset + slope * (lin2db x - thresh - kn)))"

definition adaptivereleasecurve :: "real \<Rightarrow> real \<Rightarrow> real \<Rightarrow> real \<Rightarrow> real \<Rightarrow> real" where
  "adaptivereleasecurve x a b c d = (let x2 = x * x in a * x2 * x + b * x2 + c * x + d)"

subsection \<open>The run constants over the reals\<close>

text \<open>
  The constants that \<^verbatim>\<open>sf_compressor\<close> derives from the parameters before the chunk
  loop, in exact arithmetic.
\<close>

definition linearthreshold :: "sf_compressor_params_st \<Rightarrow> real" where
  "linearthreshold p = db2lin (threshold p)"

definition slope :: "sf_compressor_params_st \<Rightarrow> real" where
  "slope p = 1 / ratio p"

definition releasesamples :: "sf_snd_st \<Rightarrow> sf_compressor_params_st \<Rightarrow> real" where
  "releasesamples s p = real_of_int (rate s) * release p"

text \<open>
  The search for the knee constant \<^verbatim>\<open>k\<close>: the body of the \<^verbatim>\<open>for\<close> loop, run a given
  number of times on the triple \<open>(k, mink, maxk)\<close>.
\<close>

fun ksearch :: "nat \<Rightarrow> real \<Rightarrow> real \<Rightarrow> real \<Rightarrow> real \<times> real \<times> real \<Rightarrow> real" where
  "ksearch 0 xknee lt sl (k, mink, maxk) = k"
| "ksearch (Suc n) xknee lt sl (k, mink, maxk) =
     (if kneeslope xknee k lt < sl
      then ksearch n xknee lt sl (sqrt (mink * k), mink, k)
      else ksearch n xknee lt sl (sqrt (k * maxk), k, maxk))"

definition xknee :: "sf_compressor_params_st \<Rightarrow> real" where
  "xknee p = db2lin (threshold p + knee p)"

definition knee_k :: "sf_compressor_params_st \<Rightarrow> real" where
  "knee_k p =
     (if knee p > 0
      then ksearch 15 (xknee p) (linearthreshold p) (slope p) (5, 0.1, 10000)
      else 5)"

text \<open>
  \<^verbatim>\<open>kneedboffset\<close> and \<^verbatim>\<open>linearthresholdknee\<close> are assigned only when \<^verbatim>\<open>params.knee > 0\<close>.
  Otherwise the C variables stay uninitialised and \<^verbatim>\<open>compcurve\<close> returns before it
  reads them; the model puts 0 there (see \<open>compcurve_noknee\<close> below).
\<close>

definition kneedboffset :: "sf_compressor_params_st \<Rightarrow> real" where
  "kneedboffset p =
     (if knee p > 0 then lin2db (kneecurve (xknee p) (knee_k p) (linearthreshold p)) else 0)"

definition linearthresholdknee :: "sf_compressor_params_st \<Rightarrow> real" where
  "linearthresholdknee p = (if knee p > 0 then db2lin (threshold p + knee p) else 0)"

text \<open>\<^verbatim>\<open>compcurve\<close> as \<^verbatim>\<open>sf_compressor\<close> calls it, with the run constants of \<open>p\<close>.\<close>

definition curve :: "sf_compressor_params_st \<Rightarrow> real \<Rightarrow> real" where
  "curve p x =
     compcurve x (knee_k p) (slope p) (linearthreshold p) (linearthresholdknee p)
       (threshold p) (knee p) (kneedboffset p)"

text \<open>The adaptive release curve: the four known points and the coefficients.\<close>

definition y1 :: "sf_snd_st \<Rightarrow> sf_compressor_params_st \<Rightarrow> real" where
  "y1 s p = releasesamples s p * releasezone1 p"

definition y2 :: "sf_snd_st \<Rightarrow> sf_compressor_params_st \<Rightarrow> real" where
  "y2 s p = releasesamples s p * releasezone2 p"

definition y3 :: "sf_snd_st \<Rightarrow> sf_compressor_params_st \<Rightarrow> real" where
  "y3 s p = releasesamples s p * releasezone3 p"

definition y4 :: "sf_snd_st \<Rightarrow> sf_compressor_params_st \<Rightarrow> real" where
  "y4 s p = releasesamples s p * releasezone4 p"

definition coef_a :: "sf_snd_st \<Rightarrow> sf_compressor_params_st \<Rightarrow> real" where
  "coef_a s p = (- y1 s p + 3 * y2 s p - 3 * y3 s p + y4 s p) / 6"

definition coef_b :: "sf_snd_st \<Rightarrow> sf_compressor_params_st \<Rightarrow> real" where
  "coef_b s p = y1 s p - 2.5 * y2 s p + 2 * y3 s p - 0.5 * y4 s p"

definition coef_c :: "sf_snd_st \<Rightarrow> sf_compressor_params_st \<Rightarrow> real" where
  "coef_c s p = (- 11 * y1 s p + 18 * y2 s p - 9 * y3 s p + 2 * y4 s p) / 6"

definition coef_d :: "sf_snd_st \<Rightarrow> sf_compressor_params_st \<Rightarrow> real" where
  "coef_d s p = y1 s p"

text \<open>The release curve with the coefficients of the run.\<close>

definition releasecurve :: "sf_snd_st \<Rightarrow> sf_compressor_params_st \<Rightarrow> real \<Rightarrow> real" where
  "releasecurve s p x =
     adaptivereleasecurve x (coef_a s p) (coef_b s p) (coef_c s p) (coef_d s p)"

subsection \<open>The helpers of the program\<close>

definition db2lin_f :: "libm \<Rightarrow> cfloat \<Rightarrow> cfloat" where
  "db2lin_f lm db = powf lm (Fin 10) (fmul (fl 0.05) db)"

definition lin2db_f :: "libm \<Rightarrow> cfloat \<Rightarrow> cfloat" where
  "lin2db_f lm lin = fmul (Fin 20) (log10f lm lin)"

definition kneecurve_f :: "libm \<Rightarrow> cfloat \<Rightarrow> cfloat \<Rightarrow> cfloat \<Rightarrow> cfloat" where
  "kneecurve_f lm x k lt =
     fadd lt (fdiv (fsub (Fin 1) (expf lm (fmul (fneg k) (fsub x lt)))) k)"

definition kneeslope_f :: "libm \<Rightarrow> cfloat \<Rightarrow> cfloat \<Rightarrow> cfloat \<Rightarrow> cfloat" where
  "kneeslope_f lm x k lt =
     fdiv (fmul k x)
       (fsub (fmul (fadd (fmul k lt) (Fin 1)) (expf lm (fmul k (fsub x lt)))) (Fin 1))"

definition compcurve_f ::
  "libm \<Rightarrow> cfloat \<Rightarrow> cfloat \<Rightarrow> cfloat \<Rightarrow> cfloat \<Rightarrow> cfloat \<Rightarrow> cfloat \<Rightarrow> cfloat \<Rightarrow> cfloat
     \<Rightarrow> cfloat" where
  "compcurve_f lm x k sl lt ltk thresh kn kdo =
     (if flt x lt then x
      else if fle kn (Fin 0) then db2lin_f lm (fadd thresh (fmul sl (fsub (lin2db_f lm x) thresh)))
      else if flt x ltk then kneecurve_f lm x k lt
      else db2lin_f lm (fadd kdo (fmul sl (fsub (fsub (lin2db_f lm x) thresh) kn))))"

definition adaptivereleasecurve_f ::
  "cfloat \<Rightarrow> cfloat \<Rightarrow> cfloat \<Rightarrow> cfloat \<Rightarrow> cfloat \<Rightarrow> cfloat" where
  "adaptivereleasecurve_f x a b c d =
     (let x2 = fmul x x
      in fadd (fadd (fadd (fmul (fmul a x2) x) (fmul b x2)) (fmul c x)) d)"

definition clampf :: "cfloat \<Rightarrow> cfloat \<Rightarrow> cfloat \<Rightarrow> cfloat" where
  "clampf v mn mx = (if flt v mn then mn else if fgt v mx then mx else v)"

definition absf :: "cfloat \<Rightarrow> cfloat" where
  "absf v = (if flt v (Fin 0) then fneg v else v)"

subsection \<open>The run constants of the program\<close>

text \<open>
  Each local \<^verbatim>\<open>float\<close> that \<^verbatim>\<open>sf_compressor\<close> computes once, before the chunk loop, as
  a function of the library, the input sound and the parameters.  \<open>frate\<close> is
  \<^verbatim>\<open>(float)snd->rate\<close>.
\<close>

definition frate :: "sf_snd_st \<Rightarrow> cfloat" where
  "frate s = fl (of_int (rate s))"

definition linearthreshold_f :: "libm \<Rightarrow> sf_compressor_params_st \<Rightarrow> cfloat" where
  "linearthreshold_f lm p = db2lin_f lm (Fin (threshold p))"

definition slope_f :: "sf_compressor_params_st \<Rightarrow> cfloat" where
  "slope_f p = fdiv (Fin 1) (Fin (ratio p))"

definition attacksamples :: "sf_snd_st \<Rightarrow> sf_compressor_params_st \<Rightarrow> cfloat" where
  "attacksamples s p = fmul (frate s) (Fin (attack p))"

definition attacksamplesinv :: "sf_snd_st \<Rightarrow> sf_compressor_params_st \<Rightarrow> cfloat" where
  "attacksamplesinv s p = fdiv (Fin 1) (attacksamples s p)"

definition releasesamples_f :: "sf_snd_st \<Rightarrow> sf_compressor_params_st \<Rightarrow> cfloat" where
  "releasesamples_f s p = fmul (frate s) (Fin (release p))"

definition satrelease :: cfloat where
  "satrelease = fl 0.0025"

definition satreleasesamplesinv :: "sf_snd_st \<Rightarrow> cfloat" where
  "satreleasesamplesinv s = fdiv (Fin 1) (fmul (frate s) satrelease)"

definition dry :: "sf_compressor_params_st \<Rightarrow> cfloat" where
  "dry p = fsub (Fin 1) (Fin (wet p))"

definition meterfalloff :: cfloat where
  "meterfalloff = fl 0.325"

definition meterrelease :: "libm \<Rightarrow> sf_snd_st \<Rightarrow> cfloat" where
  "meterrelease lm s =
     fsub (Fin 1) (expf lm (fdiv (Fin (- 1)) (fmul (frate s) meterfalloff)))"

fun ksearch_f ::
  "libm \<Rightarrow> nat \<Rightarrow> cfloat \<Rightarrow> cfloat \<Rightarrow> cfloat \<Rightarrow> cfloat \<times> cfloat \<times> cfloat \<Rightarrow> cfloat" where
  "ksearch_f lm 0 xk lt sl (k, mink, maxk) = k"
| "ksearch_f lm (Suc n) xk lt sl (k, mink, maxk) =
     (if flt (kneeslope_f lm xk k lt) sl
      then ksearch_f lm n xk lt sl (fsqrt (fmul mink k), mink, k)
      else ksearch_f lm n xk lt sl (fsqrt (fmul k maxk), k, maxk))"

definition xknee_f :: "libm \<Rightarrow> sf_compressor_params_st \<Rightarrow> cfloat" where
  "xknee_f lm p = db2lin_f lm (fadd (Fin (threshold p)) (Fin (knee p)))"

definition knee_k_f :: "libm \<Rightarrow> sf_compressor_params_st \<Rightarrow> cfloat" where
  "knee_k_f lm p =
     (if knee p > 0
      then ksearch_f lm 15 (xknee_f lm p) (linearthreshold_f lm p) (slope_f p)
             (Fin 5, fl 0.1, Fin 10000)
      else Fin 5)"

text \<open>
  As over the reals, the two variables that stay uninitialised without a knee are 0 in
  the model; \<^verbatim>\<open>compcurve\<close> does not read them then.
\<close>

definition kneedboffset_f :: "libm \<Rightarrow> sf_compressor_params_st \<Rightarrow> cfloat" where
  "kneedboffset_f lm p =
     (if knee p > 0
      then lin2db_f lm (kneecurve_f lm (xknee_f lm p) (knee_k_f lm p) (linearthreshold_f lm p))
      else Fin 0)"

definition linearthresholdknee_f :: "libm \<Rightarrow> sf_compressor_params_st \<Rightarrow> cfloat" where
  "linearthresholdknee_f lm p =
     (if knee p > 0 then db2lin_f lm (fadd (Fin (threshold p)) (Fin (knee p))) else Fin 0)"

definition curve_f :: "libm \<Rightarrow> sf_compressor_params_st \<Rightarrow> cfloat \<Rightarrow> cfloat" where
  "curve_f lm p x =
     compcurve_f lm x (knee_k_f lm p) (slope_f p) (linearthreshold_f lm p)
       (linearthresholdknee_f lm p) (Fin (threshold p)) (Fin (knee p)) (kneedboffset_f lm p)"

definition fulllevel :: "libm \<Rightarrow> sf_compressor_params_st \<Rightarrow> cfloat" where
  "fulllevel lm p = curve_f lm p (Fin 1)"

definition mastergain :: "libm \<Rightarrow> sf_compressor_params_st \<Rightarrow> cfloat" where
  "mastergain lm p =
     fmul (db2lin_f lm (Fin (postgain p))) (powf lm (fdiv (Fin 1) (fulllevel lm p)) (fl 0.6))"

definition y1_f :: "sf_snd_st \<Rightarrow> sf_compressor_params_st \<Rightarrow> cfloat" where
  "y1_f s p = fmul (releasesamples_f s p) (Fin (releasezone1 p))"

definition y2_f :: "sf_snd_st \<Rightarrow> sf_compressor_params_st \<Rightarrow> cfloat" where
  "y2_f s p = fmul (releasesamples_f s p) (Fin (releasezone2 p))"

definition y3_f :: "sf_snd_st \<Rightarrow> sf_compressor_params_st \<Rightarrow> cfloat" where
  "y3_f s p = fmul (releasesamples_f s p) (Fin (releasezone3 p))"

definition y4_f :: "sf_snd_st \<Rightarrow> sf_compressor_params_st \<Rightarrow> cfloat" where
  "y4_f s p = fmul (releasesamples_f s p) (Fin (releasezone4 p))"

definition coef_a_f :: "sf_snd_st \<Rightarrow> sf_compressor_params_st \<Rightarrow> cfloat" where
  "coef_a_f s p =
     fdiv (fadd (fsub (fadd (fneg (y1_f s p)) (fmul (Fin 3) (y2_f s p))) (fmul (Fin 3) (y3_f s p)))
             (y4_f s p))
       (Fin 6)"

definition coef_b_f :: "sf_snd_st \<Rightarrow> sf_compressor_params_st \<Rightarrow> cfloat" where
  "coef_b_f s p =
     fsub (fadd (fsub (y1_f s p) (fmul (Fin 2.5) (y2_f s p))) (fmul (Fin 2) (y3_f s p)))
       (fmul (Fin 0.5) (y4_f s p))"

definition coef_c_f :: "sf_snd_st \<Rightarrow> sf_compressor_params_st \<Rightarrow> cfloat" where
  "coef_c_f s p =
     fdiv (fadd (fsub (fadd (fmul (Fin (- 11)) (y1_f s p)) (fmul (Fin 18) (y2_f s p)))
                   (fmul (Fin 9) (y3_f s p)))
             (fmul (Fin 2) (y4_f s p)))
       (Fin 6)"

definition coef_d_f :: "sf_snd_st \<Rightarrow> sf_compressor_params_st \<Rightarrow> cfloat" where
  "coef_d_f s p = y1_f s p"

definition releasecurve_f :: "sf_snd_st \<Rightarrow> sf_compressor_params_st \<Rightarrow> cfloat \<Rightarrow> cfloat" where
  "releasecurve_f s p x =
     adaptivereleasecurve_f x (coef_a_f s p) (coef_b_f s p) (coef_c_f s p) (coef_d_f s p)"

subsection \<open>The side chain: level detector and gain smoothing\<close>

text \<open>
  The loop variables that carry the envelope from one sample to the next.  None of them
  is computed from the delay buffer.
\<close>

record sidechain =
  detectoravg :: cfloat
  compgain :: cfloat
  maxcompdiffdb :: cfloat
  metergain :: cfloat

definition ang90 :: cfloat where
  "ang90 = fmul (fl pi) (Fin 0.5)"

definition ang90inv :: cfloat where
  "ang90inv = fdiv (Fin 2) (fl pi)"

definition spacingdb :: cfloat where
  "spacingdb = Fin 5"

definition samplesperchunk :: nat where
  "samplesperchunk = 32"

text \<open>
  The head of a chunk: \<^verbatim>\<open>scaleddesiredgain\<close>, \<^verbatim>\<open>compdiffdb\<close>, the update of
  \<^verbatim>\<open>maxcompdiffdb\<close> and \<^verbatim>\<open>enveloperate\<close>.
\<close>

definition scaleddesiredgain :: "libm \<Rightarrow> sidechain \<Rightarrow> cfloat" where
  "scaleddesiredgain lm e = (let desiredgain = detectoravg e in fmul (asinf lm desiredgain) ang90inv)"

definition compdiffdb :: "libm \<Rightarrow> sidechain \<Rightarrow> cfloat" where
  "compdiffdb lm e = lin2db_f lm (fdiv (compgain e) (scaleddesiredgain lm e))"

definition chunk_maxcompdiffdb :: "libm \<Rightarrow> sidechain \<Rightarrow> cfloat" where
  "chunk_maxcompdiffdb lm e =
     (if flt (compdiffdb lm e) (Fin 0) then Fin (- 1)
      else if feq (maxcompdiffdb e) (Fin (- 1)) \<or> flt (maxcompdiffdb e) (compdiffdb lm e)
      then compdiffdb lm e
      else maxcompdiffdb e)"

definition enveloperate ::
  "libm \<Rightarrow> sf_snd_st \<Rightarrow> sf_compressor_params_st \<Rightarrow> sidechain \<Rightarrow> cfloat" where
  "enveloperate lm s p e =
     (if flt (compdiffdb lm e) (Fin 0)
      then (let x = fmul (fadd (clampf (compdiffdb lm e) (Fin (- 12)) (Fin 0)) (Fin 12)) (Fin 0.25);
                relsamples = releasecurve_f s p x
            in db2lin_f lm (fdiv spacingdb relsamples))
      else (let attenuate = chunk_maxcompdiffdb lm e;
                attenuate = (if flt attenuate (Fin 0.5) then Fin 0.5 else attenuate)
            in fsub (Fin 1) (powf lm (fdiv (Fin 0.25) attenuate) (attacksamplesinv s p))))"

text \<open>The analysis of one input sample.\<close>

definition inputmax :: "sf_sample_st \<Rightarrow> cfloat" where
  "inputmax x =
     (let inputL = absf (L x); inputR = absf (R x)
      in if fgt inputL inputR then inputL else inputR)"

definition attenuation :: "libm \<Rightarrow> sf_compressor_params_st \<Rightarrow> sf_sample_st \<Rightarrow> cfloat" where
  "attenuation lm p x =
     (if flt (inputmax x) (fl 0.0001) then Fin 1
      else fdiv (curve_f lm p (inputmax x)) (inputmax x))"

definition detector_rate :: "libm \<Rightarrow> sf_snd_st \<Rightarrow> cfloat \<Rightarrow> cfloat \<Rightarrow> cfloat" where
  "detector_rate lm s att dav =
     (if fgt att dav
      then (let attenuationdb = fneg (lin2db_f lm att);
                attenuationdb = (if flt attenuationdb (Fin 2) then Fin 2 else attenuationdb);
                dbpersample = fmul attenuationdb (satreleasesamplesinv s)
            in fsub (db2lin_f lm dbpersample) (Fin 1))
      else Fin 1)"

definition next_detectoravg :: "libm \<Rightarrow> sf_snd_st \<Rightarrow> cfloat \<Rightarrow> cfloat \<Rightarrow> cfloat" where
  "next_detectoravg lm s att dav =
     (let dav' = fadd dav (fmul (fsub att dav) (detector_rate lm s att dav))
      in if fgt dav' (Fin 1) then Fin 1 else dav')"

definition next_compgain :: "cfloat \<Rightarrow> cfloat \<Rightarrow> cfloat \<Rightarrow> cfloat" where
  "next_compgain sdg er cg =
     (if flt er (Fin 1) then fadd cg (fmul (fsub sdg cg) er)
      else (let cg' = fmul cg er in if fgt cg' (Fin 1) then Fin 1 else cg'))"

definition premixgain :: "libm \<Rightarrow> cfloat \<Rightarrow> cfloat" where
  "premixgain lm cg = sinf lm (fmul ang90 cg)"

definition gain :: "libm \<Rightarrow> sf_compressor_params_st \<Rightarrow> cfloat \<Rightarrow> cfloat" where
  "gain lm p cg = fadd (dry p) (fmul (fmul (Fin (wet p)) (mastergain lm p)) (premixgain lm cg))"

definition next_metergain :: "libm \<Rightarrow> sf_snd_st \<Rightarrow> cfloat \<Rightarrow> cfloat \<Rightarrow> cfloat" where
  "next_metergain lm s cg mg =
     (let premixgaindb = lin2db_f lm (premixgain lm cg)
      in if flt premixgaindb mg then premixgaindb
         else fadd mg (fmul (fsub premixgaindb mg) (meterrelease lm s)))"

text \<open>
  The side-chain part of the loop body, for the input sample \<open>x\<close> and the chunk's
  \<^verbatim>\<open>scaleddesiredgain\<close> and \<^verbatim>\<open>enveloperate\<close>.
\<close>

definition sc_sample ::
  "libm \<Rightarrow> sf_snd_st \<Rightarrow> sf_compressor_params_st \<Rightarrow> cfloat \<Rightarrow> cfloat \<Rightarrow> sf_sample_st \<Rightarrow> sidechain
     \<Rightarrow> sidechain" where
  "sc_sample lm s p sdg er x e =
     (let cg = next_compgain sdg er (compgain e)
      in e\<lparr> detectoravg := next_detectoravg lm s (attenuation lm p x) (detectoravg e),
            compgain := cg,
            metergain := next_metergain lm s cg (metergain e) \<rparr>)"

text \<open>The final gain value of the sample that left the side chain in state \<open>e\<close>.\<close>

definition sc_gain :: "libm \<Rightarrow> sf_compressor_params_st \<Rightarrow> sidechain \<Rightarrow> cfloat" where
  "sc_gain lm p e = gain lm p (compgain e)"

definition sc_init :: sidechain where
  "sc_init = \<lparr> detectoravg = Fin 0, compgain = Fin 1, maxcompdiffdb = Fin (- 1), metergain = Fin 1 \<rparr>"

subsection \<open>The sample loop with the pre-delay buffer\<close>

text \<open>
  C leaves an access outside an array and an integer remainder by zero undefined.  The
  model stops at the first such operation and reports it.
\<close>

datatype fault = OutOfBounds | DivByZero

record cstate =
  samplepos :: nat
  delaybuf :: "sf_sample_st list"
  delaywritepos :: nat
  delayreadpos :: nat
  env :: sidechain
  out_samples :: "sf_sample_st list"

definition zero_sample :: sf_sample_st where
  "zero_sample = \<lparr> L = 0, R = 0 \<rparr>"

definition apply_gain :: "cfloat \<Rightarrow> sf_sample_st \<Rightarrow> sf_sample_st" where
  "apply_gain g x = \<lparr> L = fmul (L x) g, R = fmul (R x) g \<rparr>"

text \<open>
  One iteration of the inner \<^verbatim>\<open>for\<close> loop, in the order of the source: the write
  \<^verbatim>\<open>delaybuf[delaywritepos] = snd->samples[samplepos]\<close>, the side chain, the read
  \<^verbatim>\<open>delaybuf[delayreadpos]\<close> for the output sample, then the increment expressions with
  their \<^verbatim>\<open>% delaybufsize\<close>.  The output array is filled front to back
  (\<^verbatim>\<open>out->samples[samplepos]\<close> with \<^verbatim>\<open>samplepos\<close> = 0, 1, 2, ...); the model appends.
\<close>

definition sample_body ::
  "libm \<Rightarrow> sf_snd_st \<Rightarrow> sf_compressor_params_st \<Rightarrow> int \<Rightarrow> cfloat \<Rightarrow> cfloat \<Rightarrow> cstate
     \<Rightarrow> fault + cstate" where
  "sample_body lm s p dbs sdg er st =
     (if \<not> samplepos st < length (samples s) then Inl OutOfBounds
      else if \<not> delaywritepos st < length (delaybuf st) then Inl OutOfBounds
      else if \<not> delayreadpos st < length (delaybuf st) then Inl OutOfBounds
      else if dbs = 0 then Inl DivByZero
      else
        (let x = samples s ! samplepos st;
             buf = (delaybuf st)[delaywritepos st := x];
             e = sc_sample lm s p sdg er x (env st)
         in Inr \<lparr> samplepos = samplepos st + 1,
                  delaybuf = buf,
                  delaywritepos = (delaywritepos st + 1) mod nat dbs,
                  delayreadpos = (delayreadpos st + 1) mod nat dbs,
                  env = e,
                  out_samples = out_samples st @ [apply_gain (sc_gain lm p e) (buf ! delayreadpos st)] \<rparr>))"

fun sample_loop ::
  "nat \<Rightarrow> libm \<Rightarrow> sf_snd_st \<Rightarrow> sf_compressor_params_st \<Rightarrow> int \<Rightarrow> cfloat \<Rightarrow> cfloat \<Rightarrow> cstate
     \<Rightarrow> fault + cstate" where
  "sample_loop 0 lm s p dbs sdg er st = Inr st"
| "sample_loop (Suc n) lm s p dbs sdg er st =
     (case sample_body lm s p dbs sdg er st of
        Inl f \<Rightarrow> Inl f
      | Inr st' \<Rightarrow> sample_loop n lm s p dbs sdg er st')"

text \<open>
  One iteration of the chunk loop: the head, then 32 samples.  The call of \<^verbatim>\<open>meterout\<close>
  at the end of a chunk is left out: its body is empty.
\<close>

definition chunk_body ::
  "libm \<Rightarrow> sf_snd_st \<Rightarrow> sf_compressor_params_st \<Rightarrow> int \<Rightarrow> cstate \<Rightarrow> fault + cstate" where
  "chunk_body lm s p dbs st =
     (let e = env st
      in sample_loop samplesperchunk lm s p dbs (scaleddesiredgain lm e) (enveloperate lm s p e)
           (st\<lparr> env := e\<lparr> maxcompdiffdb := chunk_maxcompdiffdb lm e \<rparr> \<rparr>))"

fun chunk_loop ::
  "nat \<Rightarrow> libm \<Rightarrow> sf_snd_st \<Rightarrow> sf_compressor_params_st \<Rightarrow> int \<Rightarrow> cstate \<Rightarrow> fault + cstate" where
  "chunk_loop 0 lm s p dbs st = Inr st"
| "chunk_loop (Suc c) lm s p dbs st =
     (case chunk_body lm s p dbs st of
        Inl f \<Rightarrow> Inl f
      | Inr st' \<Rightarrow> chunk_loop c lm s p dbs st')"

subsection \<open>\<^verbatim>\<open>sf_compressor\<close>\<close>

text \<open>
  The conversion of a \<^verbatim>\<open>float\<close> to a 32-bit \<^verbatim>\<open>int\<close> discards the fractional part.  When
  the result is not an \<^verbatim>\<open>int\<close> (or the value is an infinity or NaN) C does not define
  the conversion; the model takes what the conversion instruction of x86 yields,
  \<^verbatim>\<open>INT_MIN\<close>.
\<close>

definition float_to_int :: "cfloat \<Rightarrow> int" where
  "float_to_int a =
     (case a of
        Fin x \<Rightarrow>
          (let t = (if 0 \<le> x then \<lfloor>x\<rfloor> else \<lceil>x\<rceil>)
           in if - (2 ^ 31) \<le> t \<and> t < 2 ^ 31 then t else - (2 ^ 31))
      | _ \<Rightarrow> - (2 ^ 31))"

text \<open>
  \<^verbatim>\<open>int delaybufsize = snd->rate * params.predelay\<close>: the product of two \<^verbatim>\<open>float\<close> values,
  rounded to \<^verbatim>\<open>float\<close>, then converted.
\<close>

definition delaybufsize :: "sf_snd_st \<Rightarrow> sf_compressor_params_st \<Rightarrow> int" where
  "delaybufsize s p = float_to_int (fmul (frate s) (Fin (predelay p)))"

text \<open>\<^verbatim>\<open>snd->size / samplesperchunk\<close>: the division of C rounds towards zero.\<close>

definition chunks :: "sf_snd_st \<Rightarrow> int" where
  "chunks s =
     (if 0 \<le> size_snd s then size_snd s div int samplesperchunk
      else - ((- size_snd s) div int samplesperchunk))"

definition init_state :: "int \<Rightarrow> cstate" where
  "init_state dbs =
     \<lparr> samplepos = 0, delaybuf = replicate (nat dbs) zero_sample,
       delaywritepos = 0, delayreadpos = 1, env = sc_init, out_samples = [] \<rparr>"

text \<open>
  The three allocations of \<^verbatim>\<open>sf_compressor\<close>.  Whether an allocation succeeds is decided
  by the environment, as is the object that \<^verbatim>\<open>sf_snd_new()\<close> hands out: \<^verbatim>\<open>sf_snd_new\<close>
  and \<^verbatim>\<open>sf_snd_free\<close> are declared in \<^verbatim>\<open>compressor.h\<close>/\<^verbatim>\<open>snd.h\<close> and are not part of
  \<^verbatim>\<open>compressor.c\<close>.  \<^verbatim>\<open>sf_snd_new\<close> takes no argument, so the object it returns
  (\<open>fresh_snd\<close>) cannot depend on the input sound.  The environment also holds the C
  library.
\<close>

datatype resource = DelayBuf | OutSnd | OutSamples

record alloc_env =
  delaybuf_ok :: bool
  out_ok :: bool
  out_samples_ok :: bool
  fresh_snd :: sf_snd_st
  clib :: libm

definition malloc_res :: "bool \<Rightarrow> resource \<Rightarrow> resource set \<Rightarrow> resource set option" where
  "malloc_res ok r live = (if ok then Some (insert r live) else None)"

definition free_res :: "resource \<Rightarrow> resource set \<Rightarrow> resource set" where
  "free_res r live = live - {r}"

text \<open>
  Modelled from the spec: \<^verbatim>\<open>sf_snd_free\<close> is not under src/; it releases a sound object
  together with the sample array it owns, if any.
\<close>

definition sf_snd_free :: "resource set \<Rightarrow> resource set" where
  "sf_snd_free live = free_res OutSnd (free_res OutSamples live)"

text \<open>
  The result of a call: what is returned (\<open>Inr None\<close> is \<^verbatim>\<open>NULL\<close>, \<open>Inl\<close> an undefined
  operation in the loop) and the allocations that are live when the call ends.  The
  delay buffer has \<^verbatim>\<open>delaybufsize\<close> slots, all zero after \<^verbatim>\<open>memset\<close>.  A negative
  \<^verbatim>\<open>delaybufsize\<close> makes the byte count \<^verbatim>\<open>sizeof(sf_sample_st) * delaybufsize\<close> wrap around
  to more than any allocation can serve, so that \<^verbatim>\<open>malloc\<close> fails.
\<close>

definition sf_compressor ::
  "alloc_env \<Rightarrow> sf_snd_st \<Rightarrow> sf_compressor_params_st \<Rightarrow> (fault + sf_snd_st option) \<times> resource set" where
  "sf_compressor al s p =
     (case malloc_res (delaybuf_ok al \<and> 0 \<le> delaybufsize s p) DelayBuf {} of
        None \<Rightarrow> (Inr None, {})
      | Some live1 \<Rightarrow>
          (case malloc_res (out_ok al) OutSnd live1 of
             None \<Rightarrow> (Inr None, free_res DelayBuf live1)
           | Some live2 \<Rightarrow>
               (case malloc_res (out_samples_ok al) OutSamples live2 of
                  None \<Rightarrow> (Inr None, free_res DelayBuf (sf_snd_free live2))
                | Some live3 \<Rightarrow>
                    (case chunk_loop (nat (chunks s)) (clib al) s p (delaybufsize s p)
                            (init_state (delaybufsize s p)) of
                       Inl f \<Rightarrow> (Inl f, live3)
                     | Inr st \<Rightarrow>
                         (Inr (Some ((fresh_snd al)\<lparr> samples := out_samples st \<rparr>)),
                          free_res DelayBuf live3)))))"

subsection \<open>The gains of a run, from the side chain alone\<close>

text \<open>
  The same two loops over the side-chain variables only, collecting the final gain value
  of every sample.  They serve to state what the sample loop writes to the output.
\<close>

fun gains_samples ::
  "nat \<Rightarrow> libm \<Rightarrow> sf_snd_st \<Rightarrow> sf_compressor_params_st \<Rightarrow> cfloat \<Rightarrow> cfloat \<Rightarrow> nat \<Rightarrow> sidechain
     \<Rightarrow> cfloat list \<times> sidechain" where
  "gains_samples 0 lm s p sdg er pos e = ([], e)"
| "gains_samples (Suc n) lm s p sdg er pos e =
     (let e' = sc_sample lm s p sdg er (samples s ! pos) e;
          r = gains_samples n lm s p sdg er (pos + 1) e'
      in (sc_gain lm p e' # fst r, snd r))"

fun gains_chunks ::
  "nat \<Rightarrow> libm \<Rightarrow> sf_snd_st \<Rightarrow> sf_compressor_params_st \<Rightarrow> nat \<Rightarrow> sidechain \<Rightarrow> cfloat list" where
  "gains_chunks 0 lm s p pos e = []"
| "gains_chunks (Suc c) lm s p pos e =
     (let r = gains_samples samplesperchunk lm s p (scaleddesiredgain lm e) (enveloperate lm s p e)
                pos (e\<lparr> maxcompdiffdb := chunk_maxcompdiffdb lm e \<rparr>)
      in fst r @ gains_chunks c lm s p (pos + samplesperchunk) (snd r))"

definition gains :: "libm \<Rightarrow> sf_snd_st \<Rightarrow> sf_compressor_params_st \<Rightarrow> cfloat list" where
  "gains lm s p = gains_chunks (nat (chunks s)) lm s p 0 sc_init"

text \<open>
  The input sample that a delay buffer of \<open>S\<close> slots yields at sample \<open>n\<close>: the one written
  \<open>S - 1\<close> samples earlier, or the zero the buffer was cleared to.
\<close>

definition delayed :: "sf_snd_st \<Rightarrow> nat \<Rightarrow> nat \<Rightarrow> sf_sample_st" where
  "delayed s S n = (if n + 1 < S then zero_sample else samples s ! (n + 1 - S))"

text \<open>
  What the slot written at sample \<open>m\<close> holds before that write, and the invariant of the
  delay line between two iterations of the sample loop.
\<close>

definition slot_content :: "sf_snd_st \<Rightarrow> nat \<Rightarrow> nat \<Rightarrow> sf_sample_st" where
  "slot_content s S m = (if m < S then zero_sample else samples s ! (m - S))"

definition dl_inv :: "sf_snd_st \<Rightarrow> nat \<Rightarrow> cstate \<Rightarrow> bool" where
  "dl_inv s S st \<longleftrightarrow>
     length (delaybuf st) = S \<and>
     delaywritepos st = samplepos st mod S \<and>
     delayreadpos st = (samplepos st + 1) mod S \<and>
     (\<forall>i<S. delaybuf st ! ((samplepos st + i) mod S) = slot_content s S (samplepos st + i))"

text \<open>The output samples for the gains \<open>gs\<close> of the samples from position \<open>pos\<close> on.\<close>

definition delayed_out :: "sf_snd_st \<Rightarrow> nat \<Rightarrow> cfloat list \<Rightarrow> nat \<Rightarrow> sf_sample_st list" where
  "delayed_out s S gs pos =
     map (\<lambda>(g, n). apply_gain g (delayed s S n)) (zip gs [pos ..< pos + length gs])"

text \<open>
  A sample whose channels are values of the type \<^verbatim>\<open>float\<close>: a finite channel value is
  one that rounding leaves as it is.
\<close>

definition is_float :: "cfloat \<Rightarrow> bool" where
  "is_float a = (case a of Fin x \<Rightarrow> fl x = Fin x | _ \<Rightarrow> True)"

definition float_sample :: "sf_sample_st \<Rightarrow> bool" where
  "float_sample x = (is_float (L x) \<and> is_float (R x))"

text \<open>The sample with NaN on both channels.\<close>

definition nan_sample :: sf_sample_st where
  "nan_sample = \<lparr> L = NaN, R = NaN \<rparr>"

subsection \<open>Concrete inputs\<close>

text \<open>
  Inputs for the instances below.  In \<open>al_ok\<close> every allocation succeeds,
  \<^verbatim>\<open>sf_snd_new()\<close> hands out a sound with no samples, size 0 and rate 0, and the library is
  \<open>libm_c99\<close>.  The sounds have 32 samples, one chunk.  \<open>snd_impulse\<close> is a unit
  impulse at 64 Hz: a pre-delay of 1/4 s gives it a delay buffer of 16 slots.
\<close>

definition snd0 :: sf_snd_st where
  "snd0 = \<lparr> samples = [], size_snd = 0, rate = 44100 \<rparr>"

definition al_ok :: alloc_env where
  "al_ok = \<lparr> delaybuf_ok = True, out_ok = True, out_samples_ok = True,
     fresh_snd = \<lparr> samples = [], size_snd = 0, rate = 0 \<rparr>, clib = libm_c99 \<rparr>"

definition unit_sample :: sf_sample_st where
  "unit_sample = \<lparr> L = 1, R = 1 \<rparr>"

definition snd_ones :: sf_snd_st where
  "snd_ones = \<lparr> samples = replicate 32 unit_sample, size_snd = 32, rate = 44100 \<rparr>"

definition snd_impulse :: sf_snd_st where
  "snd_impulse = \<lparr> samples = unit_sample # replicate 31 zero_sample, size_snd = 32, rate = 64 \<rparr>"

definition snd_zeros :: sf_snd_st where
  "snd_zeros = \<lparr> samples = replicate 32 zero_sample, size_snd = 32, rate = 44100 \<rparr>"

text \<open>
  The values that the \<^verbatim>\<open>float\<close> fields of the C constant \<^verbatim>\<open>sf_compressor_defaults\<close> hold:
  the decimal literals rounded to \<^verbatim>\<open>float\<close>.
\<close>

definition sf_compressor_defaults_f :: sf_compressor_params_st where
  "sf_compressor_defaults_f =
     \<lparr> threshold = -24, knee = 30, ratio = 12, attack = rnd (3 / 1000), release = 1 / 4,
       predelay = rnd (6 / 1000), releasezone1 = rnd (9 / 100), releasezone2 = rnd (16 / 100),
       releasezone3 = rnd (42 / 100), releasezone4 = rnd (98 / 100), postgain = 0, wet = 1 \<rparr>"

definition params_nodelay :: sf_compressor_params_st where
  "params_nodelay = sf_compressor_defaults_f\<lparr> predelay := 0 \<rparr>"


text \<open>
  Parameter sets with no compression below full scale (threshold 0 dB, no knee), an
  attack and a pre-delay of 1/4 s (16 samples at 64 Hz).  \<open>params_flat\<close> is fully wet,
  \<open>params_dry\<close> fully dry; \<open>params_mix\<close> mixes half and half with a post-gain of 20 dB;
  \<open>params_hot\<close> is fully dry with a post-gain of 800 dB.
\<close>

definition params_flat :: sf_compressor_params_st where
  "params_flat = sf_compressor_defaults_f\<lparr> threshold := 0, knee := 0, attack := 1 / 4, predelay := 1 / 4 \<rparr>"

definition params_dry :: sf_compressor_params_st where
  "params_dry = params_flat\<lparr> wet := 0 \<rparr>"

definition params_mix :: sf_compressor_params_st where
  "params_mix = params_flat\<lparr> postgain := 20, wet := 1 / 2 \<rparr>"

definition params_hot :: sf_compressor_params_st where
  "params_hot = params_flat\<lparr> postgain := 800, wet := 0 \<rparr>"

section \<open>Rounding to single precision\<close>

lemma rhe_of_int [simp]: "rhe (of_int n) = n"
  by (simp add: rhe_def)

lemma rhe_bounds: "t - 1 / 2 \<le> of_int (rhe t)" "of_int (rhe t) \<le> t + 1 / 2"
  unfolding rhe_def Let_def by (auto; linarith)+

lemma rhe_mono: "s \<le> t \<Longrightarrow> rhe s \<le> rhe t"
proof -
  assume st: "s \<le> t"
  have fl: "\<lfloor>s\<rfloor> \<le> \<lfloor>t\<rfloor>" using st by (rule floor_mono)
  show ?thesis
  proof (cases "\<lfloor>s\<rfloor> = \<lfloor>t\<rfloor>")
    case True
    then show ?thesis using st unfolding rhe_def Let_def by auto
  next
    case False
    with fl have "\<lfloor>s\<rfloor> + 1 \<le> \<lfloor>t\<rfloor>" by simp
    moreover have "rhe s \<le> \<lfloor>s\<rfloor> + 1" unfolding rhe_def Let_def by auto
    moreover have "\<lfloor>t\<rfloor> \<le> rhe t" unfolding rhe_def Let_def by auto
    ultimately show ?thesis by linarith
  qed
qed

lemma ulp_pos: "0 < ulp x"
  by (simp add: ulp_def)

lemma rnd_0 [simp]: "rnd 0 = 0"
  by (simp add: rnd_def)


lemma fexp_ge: "- 126 \<le> fexp x"
  by (simp add: fexp_def)

lemma fexp_upper:
  assumes "x \<noteq> 0" and "\<bar>x\<bar> < 2 powr of_int n" and "- 126 < n"
  shows "fexp x < n"
proof -
  from assms(1) have "0 < \<bar>x\<bar>" by simp
  then have "log 2 \<bar>x\<bar> < log 2 (2 powr of_int n)"
    using assms(2) by (simp del: log_powr_cancel)
  then have "log 2 \<bar>x\<bar> < of_int n" by simp
  then have "\<lfloor>log 2 \<bar>x\<bar>\<rfloor> < n" by (simp add: floor_less_iff)
  with assms(3) show ?thesis by (simp add: fexp_def)
qed

lemma fexp_lower:
  assumes "2 powr of_int n \<le> \<bar>x\<bar>"
  shows "n \<le> fexp x"
proof -
  have "0 < 2 powr (of_int n :: real)" by simp
  with assms have pos: "0 < \<bar>x\<bar>" by linarith
  have "log 2 (2 powr of_int n) \<le> log 2 \<bar>x\<bar>"
    using assms pos by (simp del: log_powr_cancel)
  then have "of_int n \<le> log 2 \<bar>x\<bar>" by simp
  then have "n \<le> \<lfloor>log 2 \<bar>x\<bar>\<rfloor>" by (simp add: le_floor_iff)
  then show ?thesis by (simp add: fexp_def)
qed

lemma rnd_exact:
  assumes x: "x = of_int m * 2 powr of_int k" and m: "\<bar>m\<bar> < 2 ^ 24" and k: "- 149 \<le> k"
  shows "rnd x = x"
proof (cases "m = 0")
  case True
  with x show ?thesis by simp
next
  case False
  then have x0: "x \<noteq> 0" using x by simp
  have "\<bar>x\<bar> = of_int \<bar>m\<bar> * 2 powr of_int k" using x by (simp add: abs_mult)
  also have "\<dots> < 2 ^ 24 * 2 powr of_int k"
  proof -
    from m have "(of_int \<bar>m\<bar> :: real) < of_int (2 ^ 24)" by (simp only: of_int_less_iff)
    then show ?thesis by simp
  qed
  also have "\<dots> = 2 powr of_int (k + 24)"
    by (simp add: powr_add powr_realpow [symmetric])
  finally have "\<bar>x\<bar> < 2 powr of_int (k + 24)" .
  from fexp_upper [OF x0 this] k have "fexp x < k + 24" by simp
  moreover have "fexp x - 23 \<le> k \<or> fexp x = - 126"
    using calculation by linarith
  ultimately have le: "fexp x - 23 \<le> k" using k by linarith
  define j where "j = nat (k - (fexp x - 23))"
  have kj: "k = (fexp x - 23) + int j" using le by (simp add: j_def)
  define u where "u = ulp x"
  have u0: "0 < u" by (simp add: u_def ulp_pos)
  have pk: "2 powr (of_int k :: real) = u * 2 ^ j"
    by (simp add: u_def ulp_def kj powr_add powr_realpow)
  have xu: "x = (of_int m * 2 ^ j) * u" using x pk by simp
  then have "x / u = of_int m * 2 ^ j" using u0 by simp
  also have "\<dots> = of_int (m * 2 ^ j)" by simp
  finally have "rhe (x / u) = m * 2 ^ j" by (simp only: rhe_of_int)
  then have "rnd x = of_int (m * 2 ^ j) * u" using x0 by (simp add: rnd_def u_def)
  also have "\<dots> = x" using xu by simp
  finally show ?thesis .
qed

lemma rnd_of_int: "\<bar>m\<bar> < 2 ^ 24 \<Longrightarrow> rnd (of_int m) = of_int m"
  using rnd_exact [of "of_int m" m 0] by simp

lemma rnd_1 [simp]: "rnd 1 = 1"
  using rnd_of_int [of 1] by simp


lemma abs_lt_next_binade:
  assumes "x \<noteq> 0"
  shows "\<bar>x\<bar> < 2 powr (of_int (fexp x) + 1)"
proof -
  from assms have pos: "0 < \<bar>x\<bar>" by simp
  have "log 2 \<bar>x\<bar> < of_int \<lfloor>log 2 \<bar>x\<bar>\<rfloor> + 1" by linarith
  also have "\<dots> \<le> of_int (fexp x) + 1" by (simp add: fexp_def)
  finally have "log 2 \<bar>x\<bar> < of_int (fexp x) + 1" .
  then have "2 powr log 2 \<bar>x\<bar> < 2 powr (of_int (fexp x) + 1)" by simp
  with pos show ?thesis by simp
qed

lemma scaled_lt: "x \<noteq> 0 \<Longrightarrow> \<bar>x\<bar> / ulp x < 2 ^ 24"
proof -
  assume x: "x \<noteq> 0"
  have "2 powr (of_int (fexp x) + 1) = 2 ^ 24 * ulp x"
  proof -
    have "of_int (fexp x) + 1 = (of_int (fexp x) - 23) + (24 :: real)" by simp
    then have "2 powr (of_int (fexp x) + 1) = 2 powr (of_int (fexp x) - 23) * 2 powr (24 :: real)"
      by (simp only: powr_add)
    also have "2 powr (24 :: real) = 2 ^ 24" by (simp add: powr_realpow [symmetric])
    finally show ?thesis by (simp add: ulp_def)
  qed
  with abs_lt_next_binade [OF x] have "\<bar>x\<bar> < 2 ^ 24 * ulp x" by simp
  then show ?thesis using ulp_pos [of x] by (simp add: pos_divide_less_eq)
qed

lemma rnd_nonneg: "0 \<le> x \<Longrightarrow> 0 \<le> rnd x"
proof (cases "x = 0")
  case True
  then show ?thesis by simp
next
  case False
  assume "0 \<le> x"
  then have "0 \<le> x / ulp x" using ulp_pos [of x] by simp
  then have "rhe 0 \<le> rhe (x / ulp x)" by (rule rhe_mono)
  then have "0 \<le> rhe (x / ulp x)" using rhe_of_int [of 0] by simp
  then show ?thesis using False ulp_pos [of x] by (simp add: rnd_def)
qed

lemma rnd_le_next_binade:
  assumes "0 < x"
  shows "rnd x \<le> 2 powr (of_int (fexp x) + 1)"
proof -
  from assms have x0: "x \<noteq> 0" by simp
  from scaled_lt [OF x0] assms have "x / ulp x \<le> of_int (2 ^ 24)" by simp
  then have "rhe (x / ulp x) \<le> rhe (of_int (2 ^ 24))" by (rule rhe_mono)
  then have "rhe (x / ulp x) \<le> 2 ^ 24" by (simp only: rhe_of_int)
  then have "(of_int (rhe (x / ulp x)) :: real) \<le> of_int (2 ^ 24)" by (simp only: of_int_le_iff)
  then have "of_int (rhe (x / ulp x)) * ulp x \<le> 2 ^ 24 * ulp x"
    using ulp_pos [of x] by simp
  moreover have "2 ^ 24 * ulp x = 2 powr (of_int (fexp x) + 1)"
  proof -
    have "of_int (fexp x) + 1 = (of_int (fexp x) - 23) + (24 :: real)" by simp
    then have "2 powr (of_int (fexp x) + 1) = 2 powr (of_int (fexp x) - 23) * 2 powr (24 :: real)"
      by (simp only: powr_add)
    also have "2 powr (24 :: real) = 2 ^ 24" by (simp add: powr_realpow [symmetric])
    finally show ?thesis by (simp add: ulp_def)
  qed
  ultimately show ?thesis using x0 by (simp add: rnd_def)
qed

lemma rnd_ge_binade:
  assumes "0 < x" and "- 126 < fexp x"
  shows "2 powr of_int (fexp x) \<le> rnd x"
proof -
  from assms(1) have x0: "x \<noteq> 0" by simp
  from assms(2) have e: "fexp x = \<lfloor>log 2 \<bar>x\<bar>\<rfloor>" by (simp add: fexp_def max_def split: if_splits)
  then have "of_int (fexp x) \<le> log 2 \<bar>x\<bar>" by simp
  then have "2 powr of_int (fexp x) \<le> 2 powr log 2 \<bar>x\<bar>" by simp
  with assms(1) have lo: "2 powr of_int (fexp x) \<le> x" by simp
  have "2 powr of_int (fexp x) = 2 ^ 23 * ulp x"
  proof -
    have "of_int (fexp x) = (of_int (fexp x) - 23) + (23 :: real)" by simp
    then have "2 powr of_int (fexp x) = 2 powr (of_int (fexp x) - 23) * 2 powr (23 :: real)"
      by (metis powr_add)
    also have "2 powr (23 :: real) = 2 ^ 23" by (simp add: powr_realpow [symmetric])
    finally show ?thesis by (simp add: ulp_def)
  qed
  with lo have "of_int (2 ^ 23) \<le> x / ulp x"
    using ulp_pos [of x] by (simp add: pos_le_divide_eq)
  then have "rhe (of_int (2 ^ 23)) \<le> rhe (x / ulp x)" by (rule rhe_mono)
  then have "2 ^ 23 \<le> rhe (x / ulp x)" by (simp only: rhe_of_int)
  then have "(of_int (2 ^ 23) :: real) \<le> of_int (rhe (x / ulp x))" by (simp only: of_int_le_iff)
  then have "2 ^ 23 * ulp x \<le> of_int (rhe (x / ulp x)) * ulp x"
    using ulp_pos [of x] by simp
  with \<open>2 powr of_int (fexp x) = 2 ^ 23 * ulp x\<close> show ?thesis using x0 by (simp add: rnd_def)
qed

lemma fexp_mono: "0 < x \<Longrightarrow> x \<le> y \<Longrightarrow> fexp x \<le> fexp y"
proof -
  assume "0 < x" "x \<le> y"
  then have "log 2 \<bar>x\<bar> \<le> log 2 \<bar>y\<bar>" by simp
  then have "\<lfloor>log 2 \<bar>x\<bar>\<rfloor> \<le> \<lfloor>log 2 \<bar>y\<bar>\<rfloor>" by (rule floor_mono)
  then show ?thesis by (simp add: fexp_def)
qed

lemma rnd_mono:
  assumes "0 \<le> x" and "x \<le> y"
  shows "rnd x \<le> rnd y"
proof (cases "x = 0")
  case True
  with assms rnd_nonneg [of y] show ?thesis by simp
next
  case False
  with assms have x: "0 < x" and y: "0 < y" by simp_all
  from fexp_mono [OF x assms(2)] have le: "fexp x \<le> fexp y" .
  show ?thesis
  proof (cases "fexp x = fexp y")
    case True
    then have u: "ulp x = ulp y" by (simp add: ulp_def)
    from assms(2) have "x / ulp y \<le> y / ulp y" using ulp_pos [of y] by (simp add: divide_right_mono)
    then have "rhe (x / ulp y) \<le> rhe (y / ulp y)" by (rule rhe_mono)
    then have "(of_int (rhe (x / ulp y)) :: real) \<le> of_int (rhe (y / ulp y))" by (simp only: of_int_le_iff)
    then have "of_int (rhe (x / ulp y)) * ulp y \<le> of_int (rhe (y / ulp y)) * ulp y"
      using ulp_pos [of y] by simp
    then show ?thesis using x y u by (simp add: rnd_def)
  next
    case False
    with le have lt: "fexp x + 1 \<le> fexp y" by simp
    with fexp_ge [of x] have "- 126 < fexp y" by linarith
    from rnd_ge_binade [OF y this] have "2 powr of_int (fexp y) \<le> rnd y" .
    moreover have "rnd x \<le> 2 powr (of_int (fexp x) + 1)" using x by (rule rnd_le_next_binade)
    moreover have "2 powr (of_int (fexp x) + 1) \<le> 2 powr (of_int (fexp y) :: real)"
    proof -
      from lt have "(of_int (fexp x + 1) :: real) \<le> of_int (fexp y)" by (simp only: of_int_le_iff)
      then show ?thesis by simp
    qed
    ultimately show ?thesis by linarith
  qed
qed


lemma rnd_idem:
  assumes "0 \<le> x"
  shows "rnd (rnd x) = rnd x"
proof (cases "x = 0")
  case True
  then show ?thesis by simp
next
  case False
  with assms have x: "0 < x" by simp
  define n where "n = rhe (x / ulp x)"
  have r: "rnd x = of_int n * ulp x" using False by (simp add: rnd_def n_def)
  have "0 \<le> x / ulp x" using x ulp_pos [of x] by simp
  then have "rhe 0 \<le> n" unfolding n_def by (rule rhe_mono)
  then have n0: "0 \<le> n" using rhe_of_int [of 0] by simp
  from scaled_lt [OF False] x have "x / ulp x \<le> of_int (2 ^ 24)" by simp
  then have "n \<le> rhe (of_int (2 ^ 24))" unfolding n_def by (rule rhe_mono)
  then have n24: "n \<le> 2 ^ 24" by (simp only: rhe_of_int)
  have k: "- 149 \<le> fexp x - 23" using fexp_ge [of x] by simp
  show ?thesis
  proof (cases "n = 2 ^ 24")
    case True
    have "2 ^ 24 * ulp x = 2 powr (of_int (fexp x) + 1)"
    proof -
      have "of_int (fexp x) + 1 = (of_int (fexp x) - 23) + (24 :: real)" by simp
      then have "2 powr (of_int (fexp x) + 1) = 2 powr (of_int (fexp x) - 23) * 2 powr (24 :: real)"
        by (simp only: powr_add)
      also have "2 powr (24 :: real) = 2 ^ 24" by (simp add: powr_realpow [symmetric])
      finally show ?thesis by (simp add: ulp_def)
    qed
    with r True have "rnd x = of_int 1 * 2 powr of_int (fexp x + 1)" by simp
    then show ?thesis using k by (intro rnd_exact [where m = 1 and k = "fexp x + 1"]) simp_all
  next
    case False
    with n24 n0 have "\<bar>n\<bar> < 2 ^ 24" by simp
    moreover have "rnd x = of_int n * 2 powr of_int (fexp x - 23)"
      using r by (simp add: ulp_def)
    ultimately show ?thesis using k by (intro rnd_exact [where m = n and k = "fexp x - 23"])
  qed
qed

lemma flt_max_exact: "rnd flt_max = flt_max"
proof -
  have "flt_max = of_int (2 ^ 24 - 1) * 2 powr of_int 104"
    by (simp add: flt_max_def powr_realpow [symmetric])
  then show ?thesis by (intro rnd_exact [where m = "2 ^ 24 - 1" and k = 104]) simp_all
qed

lemma flt_max_pos: "0 < flt_max"
  by (simp add: flt_max_def)

lemma flt_max_lt: "flt_max < 2 ^ 128"
  by (simp add: flt_max_def)

lemma rnd_pow2: "- 149 \<le> k \<Longrightarrow> rnd (2 powr of_int k) = 2 powr of_int k"
  by (intro rnd_exact [where m = 1 and k = k]) simp_all

lemma fl_in_range:
  assumes "0 \<le> x" and "x \<le> flt_max"
  shows "fl x = Fin (rnd x)"
proof -
  from rnd_mono [OF assms] have "rnd x \<le> flt_max" by (simp add: flt_max_exact)
  moreover have "0 \<le> rnd x" using assms(1) by (rule rnd_nonneg)
  ultimately show ?thesis using flt_max_pos by (simp add: fl_def Let_def)
qed

lemma fl_overflow:
  assumes "2 ^ 128 \<le> x"
  shows "fl x = PInf"
proof -
  have "2 powr of_int 128 \<le> x" using assms by (simp add: powr_realpow [symmetric])
  moreover have "(0::real) \<le> 2 powr of_int 128" by simp
  ultimately have "rnd (2 powr of_int 128) \<le> rnd x" by (intro rnd_mono)
  then have "2 powr of_int 128 \<le> rnd x" by (simp only: rnd_pow2)
  then have "2 ^ 128 \<le> rnd x" by (simp add: powr_realpow [symmetric])
  with flt_max_lt show ?thesis by (simp add: fl_def Let_def)
qed

lemma fl_0 [simp]: "fl 0 = Fin 0"
  using flt_max_pos by (simp add: fl_def)

lemma fl_1 [simp]: "fl 1 = Fin 1"
  using fl_in_range [of 1] flt_max_pos by (simp add: flt_max_def)

section \<open>The pre-delay line\<close>

text \<open>
  With a buffer of \<open>S \<ge> 2\<close> slots the sample loop never leaves the buffer, and the sample
  it reads at position \<open>n\<close> is the one of position \<open>n - (S - 1)\<close>: the write position is
  \<open>n mod S\<close>, the read position \<open>(n + 1) mod S\<close>, and the write comes first.
\<close>

lemma mod_shift_neq:
  fixes n j S :: nat
  assumes "0 < j" "j < S"
  shows "(n + j) mod S \<noteq> n mod S"
proof
  assume "(n + j) mod S = n mod S"
  then have "S dvd (n + j) - n"
    by (simp add: mod_eq_dvd_iff_nat)
  then have "S dvd j" by simp
  with assms show False by (auto dest: dvd_imp_le)
qed

lemma delayed_slot: "delayed s S n = slot_content s S (n + 1)"
  by (simp add: delayed_def slot_content_def)

lemma dl_inv_init:
  assumes "2 \<le> dbs"
  shows "dl_inv s (nat dbs) (init_state dbs)"
  using assms by (simp add: dl_inv_def init_state_def slot_content_def)

lemma sample_body_ok:
  assumes inv: "dl_inv s S st" and S: "2 \<le> S" and pos: "samplepos st < length (samples s)"
  shows "\<exists>st'. sample_body lm s p (int S) sdg er st = Inr st' \<and> dl_inv s S st' \<and>
           samplepos st' = samplepos st + 1 \<and>
           env st' = sc_sample lm s p sdg er (samples s ! samplepos st) (env st) \<and>
           out_samples st' =
             out_samples st @ [apply_gain (sc_gain lm p (env st')) (delayed s S (samplepos st))]"
proof -
  let ?n = "samplepos st"
  let ?x = "samples s ! ?n"
  let ?buf = "(delaybuf st)[delaywritepos st := ?x]"
  let ?e = "sc_sample lm s p sdg er ?x (env st)"
  let ?st' = "\<lparr> samplepos = ?n + 1, delaybuf = ?buf,
                 delaywritepos = (delaywritepos st + 1) mod S,
                 delayreadpos = (delayreadpos st + 1) mod S,
                 env = ?e,
                 out_samples = out_samples st @ [apply_gain (sc_gain lm p ?e) (?buf ! delayreadpos st)] \<rparr>"
  from inv have len: "length (delaybuf st) = S"
    and wp: "delaywritepos st = ?n mod S"
    and rp: "delayreadpos st = (?n + 1) mod S"
    and cont: "\<And>i. i < S \<Longrightarrow> delaybuf st ! ((?n + i) mod S) = slot_content s S (?n + i)"
    by (simp_all add: dl_inv_def)
  from S have Spos: "0 < S" by simp
  have body: "sample_body lm s p (int S) sdg er st = Inr ?st'"
    using pos len wp rp Spos by (simp add: sample_body_def Let_def)
  have slot: "?buf ! ((?n + 1 + i) mod S) = slot_content s S (?n + 1 + i)" if i: "i < S" for i
  proof (cases "i + 1 = S")
    case True
    then have "(?n + 1 + i) mod S = ?n mod S"
      by (metis add.assoc add.commute mod_add_self1)
    moreover from True have "?n + 1 + i - S = ?n" "\<not> ?n + 1 + i < S"
      by simp_all
    then have "slot_content s S (?n + 1 + i) = ?x"
      unfolding slot_content_def by simp
    ultimately show ?thesis using len wp Spos by simp
  next
    case False
    with i have lt: "i + 1 < S" by simp
    then have "(?n + (i + 1)) mod S \<noteq> ?n mod S"
      by (intro mod_shift_neq) simp_all
    then have "?buf ! ((?n + (i + 1)) mod S) = delaybuf st ! ((?n + (i + 1)) mod S)"
      using wp by simp
    also have "\<dots> = slot_content s S (?n + (i + 1))"
      using cont [OF lt] .
    finally show ?thesis by (simp add: add.assoc add.commute)
  qed
  have rd: "?buf ! delayreadpos st = delayed s S ?n"
    using slot [of 0] Spos rp by (simp add: delayed_slot)
  have inv': "dl_inv s S ?st'"
    using len wp rp slot Spos by (simp add: dl_inv_def mod_Suc_eq mod_add_left_eq)
  from body inv' rd show ?thesis by simp
qed


lemma delayed_out_Nil: "delayed_out s S [] pos = []"
  by (simp add: delayed_out_def)

lemma delayed_out_Cons:
  "delayed_out s S (g # gs) pos = apply_gain g (delayed s S pos) # delayed_out s S gs (pos + 1)"
proof -
  have "pos < pos + length (g # gs)" by simp
  then have "[pos ..< pos + length (g # gs)] = pos # [Suc pos ..< pos + length (g # gs)]"
    by (rule upt_conv_Cons)
  moreover have "pos + length (g # gs) = pos + 1 + length gs" by simp
  ultimately have "[pos ..< pos + length (g # gs)] = pos # [pos + 1 ..< pos + 1 + length gs]"
    by simp
  then show ?thesis
    unfolding delayed_out_def by simp
qed

lemma delayed_out_append:
  "delayed_out s S (gs @ hs) pos = delayed_out s S gs pos @ delayed_out s S hs (pos + length gs)"
  by (induction gs arbitrary: pos) (simp_all add: delayed_out_Nil delayed_out_Cons)

lemma length_delayed_out: "length (delayed_out s S gs pos) = length gs"
  by (simp add: delayed_out_def)

lemma nth_delayed_out:
  "n < length gs \<Longrightarrow> delayed_out s S gs pos ! n = apply_gain (gs ! n) (delayed s S (pos + n))"
  by (simp add: delayed_out_def)

lemma length_gains_samples: "length (fst (gains_samples n lm s p sdg er pos e)) = n"
  by (induction n arbitrary: pos e) (simp_all add: Let_def)

lemma sample_loop_ok:
  assumes "dl_inv s S st" and "2 \<le> S" and "samplepos st + n \<le> length (samples s)"
  shows "\<exists>st'. sample_loop n lm s p (int S) sdg er st = Inr st' \<and> dl_inv s S st' \<and>
           samplepos st' = samplepos st + n \<and>
           env st' = snd (gains_samples n lm s p sdg er (samplepos st) (env st)) \<and>
           out_samples st' =
             out_samples st @
             delayed_out s S (fst (gains_samples n lm s p sdg er (samplepos st) (env st))) (samplepos st)"
  using assms
proof (induction n arbitrary: st)
  case 0
  then show ?case by (simp add: delayed_out_Nil)
next
  case (Suc n)
  from Suc.prems have "samplepos st < length (samples s)" by simp
  from sample_body_ok [OF Suc.prems(1) Suc.prems(2) this, of lm p sdg er]
  obtain st1 where b: "sample_body lm s p (int S) sdg er st = Inr st1"
    and i1: "dl_inv s S st1"
    and p1: "samplepos st1 = samplepos st + 1"
    and e1: "env st1 = sc_sample lm s p sdg er (samples s ! samplepos st) (env st)"
    and o1: "out_samples st1 =
               out_samples st @ [apply_gain (sc_gain lm p (env st1)) (delayed s S (samplepos st))]"
    by blast
  from Suc.prems p1 have "samplepos st1 + n \<le> length (samples s)" by simp
  from Suc.IH [OF i1 Suc.prems(2) this]
  obtain st2 where l: "sample_loop n lm s p (int S) sdg er st1 = Inr st2"
    and i2: "dl_inv s S st2"
    and p2: "samplepos st2 = samplepos st1 + n"
    and e2: "env st2 = snd (gains_samples n lm s p sdg er (samplepos st1) (env st1))"
    and o2: "out_samples st2 =
               out_samples st1 @
               delayed_out s S (fst (gains_samples n lm s p sdg er (samplepos st1) (env st1))) (samplepos st1)"
    by blast
  have "sample_loop (Suc n) lm s p (int S) sdg er st = Inr st2"
    using b l by simp
  moreover have "samplepos st2 = samplepos st + Suc n"
    using p1 p2 by simp
  moreover have "env st2 = snd (gains_samples (Suc n) lm s p sdg er (samplepos st) (env st))"
    using e1 e2 p1 by (simp add: Let_def)
  moreover have "out_samples st2 =
      out_samples st @
      delayed_out s S (fst (gains_samples (Suc n) lm s p sdg er (samplepos st) (env st))) (samplepos st)"
    using o1 o2 e1 p1 by (simp add: Let_def delayed_out_Cons)
  ultimately show ?case using i2 by blast
qed

lemma length_gains_chunks:
  "length (gains_chunks c lm s p pos e) = c * samplesperchunk"
  by (induction c arbitrary: pos e) (simp_all add: Let_def length_gains_samples)

lemma chunk_body_ok:
  assumes "dl_inv s S st" and "2 \<le> S" and "samplepos st + samplesperchunk \<le> length (samples s)"
  shows "\<exists>st'. chunk_body lm s p (int S) st = Inr st' \<and> dl_inv s S st' \<and>
           samplepos st' = samplepos st + samplesperchunk \<and>
           env st' = snd (gains_samples samplesperchunk lm s p (scaleddesiredgain lm (env st))
                            (enveloperate lm s p (env st)) (samplepos st)
                            ((env st)\<lparr> maxcompdiffdb := chunk_maxcompdiffdb lm (env st) \<rparr>)) \<and>
           out_samples st' =
             out_samples st @
             delayed_out s S
               (fst (gains_samples samplesperchunk lm s p (scaleddesiredgain lm (env st))
                            (enveloperate lm s p (env st)) (samplepos st)
                            ((env st)\<lparr> maxcompdiffdb := chunk_maxcompdiffdb lm (env st) \<rparr>)))
               (samplepos st)"
proof -
  let ?st0 = "st\<lparr> env := (env st)\<lparr> maxcompdiffdb := chunk_maxcompdiffdb lm (env st) \<rparr> \<rparr>"
  have "dl_inv s S ?st0" using assms(1) by (simp add: dl_inv_def)
  moreover have "samplepos ?st0 + samplesperchunk \<le> length (samples s)" using assms(3) by simp
  ultimately show ?thesis
    using sample_loop_ok [of s S ?st0 samplesperchunk lm p "scaleddesiredgain lm (env st)"
        "enveloperate lm s p (env st)"] assms(2)
    by (simp add: chunk_body_def Let_def)
qed

lemma chunk_loop_ok:
  assumes "dl_inv s S st" and "2 \<le> S"
    and "samplepos st + c * samplesperchunk \<le> length (samples s)"
  shows "\<exists>st'. chunk_loop c lm s p (int S) st = Inr st' \<and> dl_inv s S st' \<and>
           samplepos st' = samplepos st + c * samplesperchunk \<and>
           out_samples st' =
             out_samples st @ delayed_out s S (gains_chunks c lm s p (samplepos st) (env st)) (samplepos st)"
  using assms
proof (induction c arbitrary: st)
  case 0
  then show ?case by (simp add: delayed_out_Nil)
next
  case (Suc c)
  let ?r = "gains_samples samplesperchunk lm s p (scaleddesiredgain lm (env st))
              (enveloperate lm s p (env st)) (samplepos st)
              ((env st)\<lparr> maxcompdiffdb := chunk_maxcompdiffdb lm (env st) \<rparr>)"
  from Suc.prems have "samplepos st + samplesperchunk \<le> length (samples s)" by simp
  from chunk_body_ok [OF Suc.prems(1) Suc.prems(2) this, of lm p]
  obtain st1 where b: "chunk_body lm s p (int S) st = Inr st1"
    and i1: "dl_inv s S st1"
    and p1: "samplepos st1 = samplepos st + samplesperchunk"
    and e1: "env st1 = snd ?r"
    and o1: "out_samples st1 = out_samples st @ delayed_out s S (fst ?r) (samplepos st)"
    by blast
  from Suc.prems p1 have "samplepos st1 + c * samplesperchunk \<le> length (samples s)" by simp
  from Suc.IH [OF i1 Suc.prems(2) this]
  obtain st2 where l: "chunk_loop c lm s p (int S) st1 = Inr st2"
    and i2: "dl_inv s S st2"
    and p2: "samplepos st2 = samplepos st1 + c * samplesperchunk"
    and o2: "out_samples st2 =
               out_samples st1 @ delayed_out s S (gains_chunks c lm s p (samplepos st1) (env st1)) (samplepos st1)"
    by blast
  have "chunk_loop (Suc c) lm s p (int S) st = Inr st2"
    using b l by simp
  moreover have "samplepos st2 = samplepos st + Suc c * samplesperchunk"
    using p1 p2 by simp
  moreover have "out_samples st2 =
      out_samples st @ delayed_out s S (gains_chunks (Suc c) lm s p (samplepos st) (env st)) (samplepos st)"
    using o1 o2 e1 p1 by (simp add: Let_def delayed_out_append length_gains_samples)
  ultimately show ?case using i2 by blast
qed

lemma chunks_wf:
  assumes "size_snd s = int (length (samples s))"
  shows "nat (chunks s) = length (samples s) div samplesperchunk"
  using assms by (simp add: chunks_def zdiv_int [symmetric])

lemma length_gains:
  assumes "size_snd s = int (length (samples s))"
  shows "length (gains lm s p) = 32 * (length (samples s) div 32)"
  using chunks_wf [OF assms] by (simp add: gains_def length_gains_chunks samplesperchunk_def)

lemma sf_compressor_run:
  assumes al: "delaybuf_ok al" "out_ok al" "out_samples_ok al"
    and wf: "size_snd s = int (length (samples s))"
    and S: "2 \<le> delaybufsize s p"
  shows "sf_compressor al s p =
           (Inr (Some ((fresh_snd al)\<lparr> samples := delayed_out s (nat (delaybufsize s p)) (gains (clib al) s p) 0 \<rparr>)),
            {OutSnd, OutSamples})"
proof -
  let ?S = "nat (delaybufsize s p)"
  let ?c = "nat (chunks s)"
  have inv: "dl_inv s ?S (init_state (delaybufsize s p))"
    using S by (rule dl_inv_init)
  have S2: "2 \<le> ?S" using S by simp
  have "?c * samplesperchunk \<le> length (samples s)"
    using chunks_wf [OF wf] by simp
  then have bound: "samplepos (init_state (delaybufsize s p)) + ?c * samplesperchunk \<le> length (samples s)"
    by (simp add: init_state_def)
  from chunk_loop_ok [OF inv S2 bound, of "clib al" p]
  obtain st' where run: "chunk_loop ?c (clib al) s p (int ?S) (init_state (delaybufsize s p)) = Inr st'"
    and out: "out_samples st' =
        out_samples (init_state (delaybufsize s p)) @
        delayed_out s ?S (gains_chunks ?c (clib al) s p (samplepos (init_state (delaybufsize s p)))
                            (env (init_state (delaybufsize s p))))
          (samplepos (init_state (delaybufsize s p)))"
    by blast
  have intS: "int ?S = delaybufsize s p" using S by simp
  have out': "out_samples st' = delayed_out s ?S (gains (clib al) s p) 0"
    using out by (simp add: init_state_def gains_def)
  have live: "free_res DelayBuf {OutSamples, OutSnd, DelayBuf} = {OutSnd, OutSamples}"
    by (auto simp add: free_res_def)
  have nn: "0 \<le> delaybufsize s p" using S by simp
  show ?thesis
    using al nn run out' live unfolding sf_compressor_def malloc_res_def intS
    by simp
qed

section \<open>Facts about the operations\<close>


lemma fl_exact:
  assumes "x = of_int m * 2 powr of_int k" and "\<bar>m\<bar> < 2 ^ 24" and "- 149 \<le> k" and "k \<le> 104"
  shows "fl x = Fin x"
proof -
  have r: "rnd x = x" using assms(1-3) by (rule rnd_exact)
  have "\<bar>x\<bar> = of_int \<bar>m\<bar> * 2 powr of_int k" using assms(1) by (simp add: abs_mult)
  also have "\<dots> \<le> of_int (2 ^ 24 - 1) * 2 powr of_int k"
  proof -
    from assms(2) have "\<bar>m\<bar> \<le> 2 ^ 24 - 1" by simp
    then have "(of_int \<bar>m\<bar> :: real) \<le> of_int (2 ^ 24 - 1)" by (simp only: of_int_le_iff)
    then show ?thesis by (intro mult_right_mono) simp_all
  qed
  also have "\<dots> \<le> of_int (2 ^ 24 - 1) * 2 powr of_int 104"
  proof -
    from assms(4) have "(of_int k :: real) \<le> of_int 104" by (simp only: of_int_le_iff)
    then have "2 powr (of_int k :: real) \<le> 2 powr of_int 104" by (rule powr_mono) simp
    then show ?thesis by (intro mult_left_mono) simp_all
  qed
  also have "\<dots> = flt_max" by (simp add: flt_max_def powr_realpow [symmetric])
  finally have "\<bar>x\<bar> \<le> flt_max" .
  then have "\<not> flt_max < x" "\<not> x < - flt_max" by linarith+
  then show ?thesis using r by (simp add: fl_def Let_def)
qed

lemma fl_of_int: "\<bar>m\<bar> < 2 ^ 24 \<Longrightarrow> fl (of_int m) = Fin (of_int m)"
  using fl_exact [of "of_int m" m 0] by simp

lemma frate_exact: "\<bar>rate s\<bar> < 2 ^ 24 \<Longrightarrow> frate s = Fin (of_int (rate s))"
  by (simp add: frate_def fl_of_int)

lemma fmul_NaN_right [simp]: "fmul a NaN = NaN"
  by (cases a) simp_all

lemma fadd_NaN_right [simp]: "fadd a NaN = NaN"
  by (cases a) simp_all

lemma fmul_zero_left: "fmul (Fin 0) g = (if is_finite g then Fin 0 else NaN)"
  by (cases g) (simp_all add: is_finite_def)

lemma fmul_one_right: "is_float a \<Longrightarrow> fmul a (Fin 1) = a"
  by (cases a) (simp_all add: is_float_def signed_inf_def)

lemma apply_gain_zero:
  "apply_gain g zero_sample = (if is_finite g then zero_sample else nan_sample)"
  by (simp add: apply_gain_def zero_sample_def nan_sample_def zero_cfloat_def fmul_zero_left)

lemma apply_gain_one: "float_sample x \<Longrightarrow> apply_gain (Fin 1) x = x"
  by (simp add: apply_gain_def float_sample_def fmul_one_right)

lemma apply_gain_NaN: "apply_gain NaN x = nan_sample"
  by (simp add: apply_gain_def nan_sample_def)

lemma dry_wet0: "wet p = 0 \<Longrightarrow> dry p = Fin 1"
  by (simp add: dry_def fsub_def)

lemma gain_wet0:
  assumes "wet p = 0"
  shows "gain lm p cg =
           (if is_finite (mastergain lm p) \<and> is_finite (premixgain lm cg) then Fin 1 else NaN)"
proof (cases "is_finite (mastergain lm p)")
  case True
  then have m: "fmul (Fin 0) (mastergain lm p) = Fin 0" by (simp add: fmul_zero_left)
  show ?thesis
  proof (cases "is_finite (premixgain lm cg)")
    case True
    then have "fmul (Fin 0) (premixgain lm cg) = Fin 0" by (simp add: fmul_zero_left)
    with m True \<open>is_finite (mastergain lm p)\<close> show ?thesis
      using assms by (simp add: gain_def dry_wet0)
  next
    case False
    then have "fmul (Fin 0) (premixgain lm cg) = NaN" by (simp add: fmul_zero_left)
    with m False show ?thesis using assms by (simp add: gain_def dry_wet0)
  qed
next
  case False
  then have "fmul (Fin 0) (mastergain lm p) = NaN" by (simp add: fmul_zero_left)
  with False show ?thesis using assms by (simp add: gain_def)
qed

lemma gain_wet0_cases: "wet p = 0 \<Longrightarrow> gain lm p cg = Fin 1 \<or> gain lm p cg = NaN"
  by (simp add: gain_wet0)

section \<open>The output of a run\<close>

lemma delayed_shift:
  "0 < S \<Longrightarrow> delayed s S n = (if n < S - 1 then zero_sample else samples s ! (n - (S - 1)))"
  by (cases S) (simp_all add: delayed_def)

lemma gains_samples_form:
  "g \<in> set (fst (gains_samples n lm s p sdg er pos e)) \<Longrightarrow> \<exists>cg. g = gain lm p cg"
  by (induction n arbitrary: pos e) (auto simp add: Let_def sc_gain_def)

lemma gains_chunks_form:
  "g \<in> set (gains_chunks c lm s p pos e) \<Longrightarrow> \<exists>cg. g = gain lm p cg"
  by (induction c arbitrary: pos e) (auto simp add: Let_def dest: gains_samples_form)

lemma gains_form: "n < length (gains lm s p) \<Longrightarrow> \<exists>cg. gains lm s p ! n = gain lm p cg"
  using gains_chunks_form [of "gains lm s p ! n" "nat (chunks s)" lm s p 0 sc_init]
  by (simp add: gains_def)

lemma gains_wet0:
  "wet p = 0 \<Longrightarrow> n < length (gains lm s p) \<Longrightarrow>
   gains lm s p ! n = Fin 1 \<or> gains lm s p ! n = NaN"
proof -
  assume w: "wet p = 0" and n: "n < length (gains lm s p)"
  from gains_form [OF n] obtain cg where "gains lm s p ! n = gain lm p cg" ..
  with gain_wet0_cases [OF w, of lm cg] show ?thesis by simp
qed

text \<open>The run of a call with a delay buffer of at least 2 slots, sample by sample.\<close>

lemma run_samples:
  assumes "delaybuf_ok al" and "out_ok al" and "out_samples_ok al"
    and "size_snd s = int (length (samples s))"
    and "2 \<le> delaybufsize s p"
  shows "\<exists>out. sf_compressor al s p = (Inr (Some out), {OutSnd, OutSamples}) \<and>
           length (samples out) = 32 * (length (samples s) div 32) \<and>
           length (gains (clib al) s p) = length (samples out) \<and>
           (\<forall>n < length (samples out).
              samples out ! n =
                apply_gain (gains (clib al) s p ! n)
                  (if n < nat (delaybufsize s p) - 1 then zero_sample
                   else samples s ! (n - (nat (delaybufsize s p) - 1))))"
proof -
  let ?S = "nat (delaybufsize s p)"
  let ?out = "(fresh_snd al)\<lparr> samples := delayed_out s ?S (gains (clib al) s p) 0 \<rparr>"
  have len: "length (samples ?out) = 32 * (length (samples s) div 32)"
    using length_gains [OF assms(4)] by (simp add: length_delayed_out)
  have lg: "length (gains (clib al) s p) = length (samples ?out)"
    by (simp add: length_delayed_out)
  have nth: "samples ?out ! n =
      apply_gain (gains (clib al) s p ! n)
        (if n < ?S - 1 then zero_sample else samples s ! (n - (?S - 1)))"
    if "n < length (samples ?out)" for n
    using that assms(5) by (simp add: length_delayed_out nth_delayed_out delayed_shift)
  from sf_compressor_run [OF assms] len lg nth show ?thesis by blast
qed

section \<open>Evaluating the rounding\<close>

lemma fexp_eq:
  assumes "2 powr of_int e \<le> \<bar>x\<bar>" and "\<bar>x\<bar> < 2 powr (of_int e + 1)" and "- 126 \<le> e"
  shows "fexp x = e"
proof -
  have pos: "0 < (2::real) powr of_int e" by simp
  have x0: "x \<noteq> 0" using assms(1) pos by auto
  have "\<bar>x\<bar> < 2 powr of_int (e + 1)" using assms(2) by simp
  from fexp_upper [OF x0 this] assms(3) have "fexp x < e + 1" by simp
  moreover from fexp_lower [OF assms(1)] have "e \<le> fexp x" .
  ultimately show ?thesis by simp
qed

lemma rnd_eval:
  assumes "2 powr of_int e \<le> \<bar>x\<bar>" and "\<bar>x\<bar> < 2 powr (of_int e + 1)" and "- 126 \<le> e"
  shows "rnd x = of_int (rhe (x / 2 powr (of_int e - 23))) * 2 powr (of_int e - 23)"
proof -
  have pos: "0 < (2::real) powr of_int e" by simp
  have x0: "x \<noteq> 0" using assms(1) pos by auto
  show ?thesis using x0 fexp_eq [OF assms] by (simp add: rnd_def ulp_def)
qed

lemma rnd_error:
  assumes "2 powr of_int e \<le> \<bar>x\<bar>" and "\<bar>x\<bar> < 2 powr (of_int e + 1)" and "- 126 \<le> e"
  shows "\<bar>rnd x - x\<bar> \<le> 2 powr (of_int e - 24)"
proof -
  let ?u = "(2::real) powr (of_int e - 23)"
  have u: "0 < ?u" by simp
  have r: "rnd x = of_int (rhe (x / ?u)) * ?u" by (rule rnd_eval [OF assms])
  have "\<bar>of_int (rhe (x / ?u)) - x / ?u\<bar> \<le> 1 / 2"
    using rhe_bounds [of "x / ?u"] by linarith
  then have "\<bar>of_int (rhe (x / ?u)) - x / ?u\<bar> * ?u \<le> 1 / 2 * ?u"
    using u by (intro mult_right_mono) simp_all
  moreover have "\<bar>of_int (rhe (x / ?u)) - x / ?u\<bar> * ?u = \<bar>rnd x - x\<bar>"
  proof -
    have "\<bar>of_int (rhe (x / ?u)) - x / ?u\<bar> * ?u = \<bar>(of_int (rhe (x / ?u)) - x / ?u) * ?u\<bar>"
      by (simp add: abs_mult)
    also have "(of_int (rhe (x / ?u)) - x / ?u) * ?u = rnd x - x"
      using u r by (simp add: algebra_simps)
    finally show ?thesis .
  qed
  moreover have "1 / 2 * ?u = 2 powr (of_int e - 24)"
  proof -
    have "(2::real) powr (of_int e - 23) = 2 powr (of_int e - 24 + 1)" by simp
    also have "\<dots> = 2 powr (of_int e - 24) * 2" by (simp only: powr_add) simp
    finally show ?thesis by simp
  qed
  ultimately show ?thesis by simp
qed

lemma rnd_twentieth: "rnd (1 / 20) = 13421773 / 2 ^ 28"
proof -
  have p: "(2::real) powr (of_int (- 5) - 23) = 1 / 2 ^ 28"
    using powr_int [of "2::real" "- 28"] by simp
  have a: "(2::real) powr of_int (- 5) \<le> \<bar>1 / 20\<bar>"
    using powr_int [of "2::real" "- 5"] by simp
  have b: "\<bar>1 / 20 :: real\<bar> < 2 powr (of_int (- 5) + 1)"
    using powr_int [of "2::real" "- 4"] by simp
  have c: "- 126 \<le> (- 5::int)" by simp
  have h: "rhe ((1 / 20) / (1 / 2 ^ 28)) = 13421773" by (simp add: rhe_def)
  have "rnd (1 / 20) = of_int (rhe ((1 / 20) / (1 / 2 ^ 28))) * (1 / 2 ^ 28)"
    using rnd_eval [OF a b c] by (simp only: p)
  then show ?thesis unfolding h by simp
qed

lemma rnd_near_one_above: "rnd (1 + 1 / 2 ^ 26) = 1"
proof -
  have p: "(2::real) powr (of_int 0 - 23) = 1 / 2 ^ 23"
    using powr_int [of "2::real" "- 23"] by simp
  have a: "(2::real) powr of_int 0 \<le> \<bar>1 + 1 / 2 ^ 26\<bar>" by simp
  have b: "\<bar>1 + 1 / 2 ^ 26 :: real\<bar> < 2 powr (of_int 0 + 1)" by simp
  have c: "- 126 \<le> (0::int)" by simp
  have h: "rhe ((1 + 1 / 2 ^ 26) / (1 / 2 ^ 23)) = 8388608" by (simp add: rhe_def)
  have "rnd (1 + 1 / 2 ^ 26) = of_int (rhe ((1 + 1 / 2 ^ 26) / (1 / 2 ^ 23))) * (1 / 2 ^ 23)"
    using rnd_eval [OF a b c] by (simp only: p)
  then show ?thesis unfolding h by simp
qed

lemma rnd_near_one_below: "rnd (1 - 1 / 2 ^ 40) = 1"
proof -
  have p: "(2::real) powr (of_int (- 1) - 23) = 1 / 2 ^ 24"
    using powr_int [of "2::real" "- 24"] by simp
  have a: "(2::real) powr of_int (- 1) \<le> \<bar>1 - 1 / 2 ^ 40\<bar>"
    using powr_int [of "2::real" "- 1"] by simp
  have b: "\<bar>1 - 1 / 2 ^ 40 :: real\<bar> < 2 powr (of_int (- 1) + 1)" by simp
  have c: "- 126 \<le> (- 1::int)" by simp
  have h: "rhe ((1 - 1 / 2 ^ 40) / (1 / 2 ^ 24)) = 16777216" by (simp add: rhe_def)
  have "rnd (1 - 1 / 2 ^ 40) = of_int (rhe ((1 - 1 / 2 ^ 40) / (1 / 2 ^ 24))) * (1 / 2 ^ 24)"
    using rnd_eval [OF a b c] by (simp only: p)
  then show ?thesis unfolding h by simp
qed


section \<open>The quarter turn\<close>

lemma cos_lower: "1 - d\<^sup>2 / 2 \<le> cos (d::real)"
proof -
  have "\<bar>sin (d / 2)\<bar> \<le> \<bar>d / 2\<bar>" by (rule abs_sin_x_le_abs_x)
  then have "(sin (d / 2))\<^sup>2 \<le> (d / 2)\<^sup>2" by (simp only: abs_le_square_iff)
  moreover have "cos d = 1 - 2 * (sin (d / 2))\<^sup>2"
    using cos_double_sin [of "d / 2"] by simp
  ultimately show ?thesis by (simp add: power2_eq_square)
qed

lemma flt_max_ge: "4 \<le> flt_max"
  by (simp add: flt_max_def)

lemma rnd_pi_bounds: "2 \<le> rnd pi" "rnd pi \<le> 4" "\<bar>rnd pi - pi\<bar> \<le> 1 / 2 ^ 23"
proof -
  have "rnd 2 \<le> rnd pi" using pi_ge_two by (intro rnd_mono) simp_all
  moreover have "rnd 2 = 2" using rnd_of_int [of 2] by simp
  ultimately show "2 \<le> rnd pi" by simp
  have "rnd pi \<le> rnd 4" using pi_less_4 by (intro rnd_mono) simp_all
  moreover have "rnd 4 = 4" using rnd_of_int [of 4] by simp
  ultimately show "rnd pi \<le> 4" by simp
  have a: "(2::real) powr of_int 1 \<le> \<bar>pi\<bar>" using pi_ge_two by simp
  have b: "\<bar>pi\<bar> < 2 powr (of_int 1 + 1)" using pi_less_4 by simp
  have c: "- 126 \<le> (1::int)" by simp
  have p: "(2::real) powr (of_int 1 - 24) = 1 / 2 ^ 23"
    using powr_int [of "2::real" "- 23"] by simp
  from rnd_error [OF a b c] show "\<bar>rnd pi - pi\<bar> \<le> 1 / 2 ^ 23" by (simp only: p)
qed

lemma fl_pi: "fl pi = Fin (rnd pi)"
  using pi_less_4 flt_max_ge by (intro fl_in_range) simp_all

lemma ang90_value: "\<exists>a. ang90 = Fin a \<and> rnd a = a \<and> \<bar>a - pi / 2\<bar> \<le> 1 / 2 ^ 22"
proof -
  let ?h = "rnd pi * (1 / 2)"
  have h: "1 \<le> ?h" "?h \<le> 2" using rnd_pi_bounds by simp_all
  have "fl ?h = Fin (rnd ?h)" using h flt_max_ge by (intro fl_in_range) simp_all
  then have a: "ang90 = Fin (rnd ?h)" by (simp add: ang90_def fl_pi)
  have i: "rnd (rnd ?h) = rnd ?h" using h by (intro rnd_idem) simp
  have e: "\<bar>rnd ?h - ?h\<bar> \<le> 1 / 2 ^ 24"
  proof (cases "?h = 2")
    case True
    have "rnd (2::real) = 2" using rnd_of_int [of 2] by simp
    with True show ?thesis by simp
  next
    case False
    have a: "(2::real) powr of_int 0 \<le> \<bar>?h\<bar>" using h by simp
    have b: "\<bar>?h\<bar> < 2 powr (of_int 0 + 1)" using h False by simp
    have c: "- 126 \<le> (0::int)" by simp
    have p: "(2::real) powr (of_int 0 - 24) = 1 / 2 ^ 24"
      using powr_int [of "2::real" "- 24"] by simp
    from rnd_error [OF a b c] show ?thesis by (simp only: p)
  qed
  have "?h - pi / 2 = (rnd pi - pi) * (1 / 2)" by simp
  then have "\<bar>?h - pi / 2\<bar> = \<bar>rnd pi - pi\<bar> * (1 / 2)" by (simp only: abs_mult)
  moreover have "\<bar>rnd pi - pi\<bar> * (1 / 2) \<le> 1 / 2 ^ 23 * (1 / 2)"
    using rnd_pi_bounds(3) by (intro mult_right_mono) simp_all
  ultimately have "\<bar>?h - pi / 2\<bar> \<le> 1 / 2 ^ 24" by simp
  with e have "\<bar>rnd ?h - pi / 2\<bar> \<le> 1 / 2 ^ 24 + 1 / 2 ^ 24" by linarith
  then have "\<bar>rnd ?h - pi / 2\<bar> \<le> 1 / 2 ^ 22" by simp
  with a i show ?thesis by blast
qed

lemma sin_ang90: "\<bar>a - pi / 2\<bar> \<le> 1 / 2 ^ 22 \<Longrightarrow> 1 - 1 / 2 ^ 40 \<le> sin a"
proof -
  assume d: "\<bar>a - pi / 2\<bar> \<le> 1 / 2 ^ 22"
  let ?d = "pi / 2 - a"
  have "\<bar>?d\<bar> \<le> 1 / 2 ^ 22" using d by (simp only: abs_minus_commute [of "pi / 2" a])
  then have "?d\<^sup>2 \<le> (1 / 2 ^ 22)\<^sup>2" by (simp only: abs_le_square_iff [symmetric])
  then have "?d\<^sup>2 / 2 \<le> (1 / 2 ^ 22)\<^sup>2 / 2" by (rule divide_right_mono) simp
  also have "(1 / 2 ^ 22)\<^sup>2 / 2 \<le> (1::real) / 2 ^ 40" by (simp add: power_divide)
  finally have "?d\<^sup>2 / 2 \<le> 1 / 2 ^ 40" .
  moreover have "sin a = cos ?d" using sin_cos_eq [of a] by simp
  ultimately show ?thesis using cos_lower [of ?d] by linarith
qed

lemma rnd_sin_ang90: "\<bar>a - pi / 2\<bar> \<le> 1 / 2 ^ 22 \<Longrightarrow> rnd (sin a) = 1"
proof -
  assume d: "\<bar>a - pi / 2\<bar> \<le> 1 / 2 ^ 22"
  have lo: "1 - 1 / 2 ^ 40 \<le> sin a" by (rule sin_ang90 [OF d])
  have "rnd (1 - 1 / 2 ^ 40) \<le> rnd (sin a)" using lo by (intro rnd_mono) simp_all
  moreover have "rnd (sin a) \<le> rnd 1" using lo by (intro rnd_mono) simp_all
  ultimately show ?thesis using rnd_near_one_below by simp
qed

lemma premixgain_one: "premixgain libm_c99 (Fin 1) = Fin 1"
proof -
  from ang90_value obtain a where a: "ang90 = Fin a" "rnd a = a" "\<bar>a - pi / 2\<bar> \<le> 1 / 2 ^ 22"
    by blast
  have e: "(1::real) / 2 ^ 22 \<le> 1" by simp
  have a0: "0 \<le> a" "a \<le> flt_max" using a(3) pi_ge_two pi_less_4 flt_max_ge e by linarith+
  have "fl a = Fin a" using fl_in_range [OF a0] a(2) by simp
  then have m: "fmul ang90 (Fin 1) = Fin a" by (simp add: a(1))
  have s: "0 \<le> sin a" "sin a \<le> flt_max"
  proof -
    have "(1::real) / 2 ^ 40 \<le> 1" by simp
    with sin_ang90 [OF a(3)] show "0 \<le> sin a" by linarith
    show "sin a \<le> flt_max" using sin_le_one [of a] flt_max_ge by linarith
  qed
  have "fl (sin a) = Fin 1" using fl_in_range [OF s] rnd_sin_ang90 [OF a(3)] by simp
  then show ?thesis by (simp add: premixgain_def libm_c99_def m)
qed

section \<open>The run constants with \<open>libm_c99\<close>\<close>

lemma powf_c99 [simp]: "powf libm_c99 = c99_powf"
  and expf_c99 [simp]: "expf libm_c99 = c99_expf"
  and log10f_c99 [simp]: "log10f libm_c99 = c99_log10f"
  and sinf_c99 [simp]: "sinf libm_c99 = c99_sinf"
  and asinf_c99 [simp]: "asinf libm_c99 = c99_asinf"
  by (simp_all add: libm_c99_def)

lemma fl_small: "0 \<le> x \<Longrightarrow> x \<le> 2 ^ 24 \<Longrightarrow> fl x = Fin (rnd x)"
proof -
  assume x: "0 \<le> x" "x \<le> 2 ^ 24"
  have "(2::real) ^ 24 \<le> flt_max" by (simp add: flt_max_def)
  with x(2) have "x \<le> flt_max" by linarith
  with x(1) show ?thesis by (rule fl_in_range)
qed

lemma fl_twentieth: "fl (1 / 20) = Fin (13421773 / 2 ^ 28)"
  using fl_small [of "1 / 20"] by (simp add: rnd_twentieth)

lemma fl_half_int: "\<bar>m\<bar> < 2 ^ 24 \<Longrightarrow> fl (of_int m / 2) = Fin (of_int m / 2)"
  using fl_exact [of "of_int m / 2" m "- 1"] powr_int [of "2::real" "- 1"] by simp

lemma fl_half [simp]: "fl (1 / 2) = Fin (1 / 2)"
  using fl_half_int [of 1] by simp

lemma fl_numeral: "\<bar>numeral n :: int\<bar> < 2 ^ 24 \<Longrightarrow> fl (numeral n) = Fin (numeral n)"
  using fl_of_int [of "numeral n"] by simp

lemma db2lin_f_0: "db2lin_f libm_c99 (Fin 0) = Fin 1"
  by (simp add: db2lin_f_def fl_twentieth)

lemma lin2db_f_1: "lin2db_f libm_c99 (Fin 1) = Fin 0"
  by (simp add: lin2db_f_def)

lemma slope_f_finite: "1 \<le> ratio p \<Longrightarrow> \<exists>r. slope_f p = Fin r"
proof -
  assume r: "1 \<le> ratio p"
  have "fl (1 / ratio p) = Fin (rnd (1 / ratio p))"
    using r by (intro fl_small) (simp_all add: divide_le_eq)
  then show ?thesis using r by (simp add: slope_f_def)
qed

lemma fulllevel_flat:
  assumes "threshold p = 0" and "knee p = 0" and "1 \<le> ratio p"
  shows "fulllevel libm_c99 p = Fin 1"
proof -
  from slope_f_finite [OF assms(3)] obtain r where r: "slope_f p = Fin r" ..
  have lt: "linearthreshold_f libm_c99 p = Fin 1"
    by (simp add: linearthreshold_f_def assms(1) db2lin_f_0)
  show ?thesis
    by (simp add: fulllevel_def curve_f_def compcurve_f_def lt assms(1,2) fle_def r
        lin2db_f_1 fsub_def db2lin_f_0)
qed

lemma fl_six_tenths: "\<exists>b. fl (3 / 5) = Fin b"
  using fl_small [of "3 / 5"] by simp

lemma mastergain_flat:
  assumes "threshold p = 0" and "knee p = 0" and "1 \<le> ratio p"
  shows "mastergain libm_c99 p = fmul (db2lin_f libm_c99 (Fin (postgain p))) (Fin 1)"
proof -
  from fl_six_tenths obtain b where b: "fl (3 / 5) = Fin b" ..
  show ?thesis
    by (simp add: mastergain_def fulllevel_flat [OF assms] b)
qed

lemma db2lin_f_20: "db2lin_f libm_c99 (Fin 20) = Fin 10"
proof -
  have "(13421773 / 2 ^ 28 * 20 :: real) = 1 + 1 / 2 ^ 26" by simp
  moreover have "fl (1 + 1 / 2 ^ 26) = Fin (rnd (1 + 1 / 2 ^ 26))"
    by (intro fl_small) simp_all
  ultimately have "fmul (fl (1 / 20)) (Fin 20) = Fin 1"
    by (simp only: fl_twentieth fmul.simps rnd_near_one_above)
  moreover have "fl 10 = Fin 10" using fl_numeral [of "num.Bit0 (num.Bit1 (num.Bit0 num.One))"] by simp
  ultimately show ?thesis by (simp add: db2lin_f_def)
qed

lemma db2lin_f_800: "db2lin_f libm_c99 (Fin 800) = PInf"
proof -
  let ?x = "13421773 / 2 ^ 28 * 800 :: real"
  have x: "39 \<le> ?x" "?x \<le> 41" by simp_all
  have f: "fl ?x = Fin (rnd ?x)" using x by (intro fl_small) simp_all
  have "rnd 39 \<le> rnd ?x" using x by (intro rnd_mono) simp_all
  moreover have "rnd 39 = 39" using rnd_of_int [of 39] by simp
  ultimately have y: "39 \<le> rnd ?x" by simp
  have "(2::real) ^ 128 \<le> 10 powr 39" by simp
  also have "\<dots> \<le> 10 powr rnd ?x" using y by (intro powr_mono) simp_all
  finally have "fl (10 powr rnd ?x) = PInf" by (rule fl_overflow)
  moreover have "0 < rnd ?x" using y by simp
  ultimately have "c99_powf (Fin 10) (Fin (rnd ?x)) = PInf" by simp
  moreover have "fmul (fl (1 / 20)) (Fin 800) = Fin (rnd ?x)"
    by (simp only: fl_twentieth fmul.simps f)
  ultimately show ?thesis by (simp add: db2lin_f_def)
qed

section \<open>The first chunk\<close>

lemma ang90inv_finite: "\<exists>y. ang90inv = Fin y"
proof -
  have r: "2 \<le> rnd pi" by (rule rnd_pi_bounds(1))
  then have "fl (2 / rnd pi) = Fin (rnd (2 / rnd pi))"
    by (intro fl_small) (simp_all add: divide_le_eq)
  then show ?thesis using r by (simp add: ang90inv_def fl_pi)
qed

lemma scaleddesiredgain_init: "scaleddesiredgain libm_c99 sc_init = Fin 0"
proof -
  from ang90inv_finite obtain y where y: "ang90inv = Fin y" ..
  show ?thesis by (simp add: scaleddesiredgain_def sc_init_def y)
qed

lemma compdiffdb_init: "compdiffdb libm_c99 sc_init = PInf"
proof -
  have "compgain sc_init = Fin 1" by (simp add: sc_init_def)
  then show ?thesis by (simp add: compdiffdb_def scaleddesiredgain_init lin2db_f_def signed_inf_def)
qed

lemma chunk_maxcompdiffdb_init: "chunk_maxcompdiffdb libm_c99 sc_init = PInf"
proof -
  have "maxcompdiffdb sc_init = Fin (- 1)" by (simp add: sc_init_def)
  then show ?thesis by (simp add: chunk_maxcompdiffdb_def compdiffdb_init)
qed

text \<open>
  In the first chunk \<^verbatim>\<open>compgain / scaleddesiredgain\<close> is 1 / 0: \<^verbatim>\<open>compdiffdb\<close> and
  \<^verbatim>\<open>maxcompdiffdb\<close> are +infinity, and \<^verbatim>\<open>enveloperate\<close> is 1.
\<close>

lemma enveloperate_init:
  assumes "attacksamplesinv s p = Fin b" and "0 < b"
  shows "enveloperate libm_c99 s p sc_init = Fin 1"
  using assms(2)
  by (simp add: enveloperate_def compdiffdb_init chunk_maxcompdiffdb_init assms(1) fsub_def)

lemma next_compgain_unity: "next_compgain sdg (Fin 1) (Fin 1) = Fin 1"
  by (simp add: next_compgain_def fgt_def)

lemma gains_samples_unity:
  "compgain e = Fin 1 \<Longrightarrow>
   fst (gains_samples n lm s p sdg (Fin 1) pos e) = replicate n (gain lm p (Fin 1))"
proof (induction n arbitrary: pos e)
  case 0
  show ?case by simp
next
  case (Suc n)
  let ?e = "sc_sample lm s p sdg (Fin 1) (samples s ! pos) e"
  have c: "compgain ?e = Fin 1" using Suc.prems by (simp add: sc_sample_def Let_def next_compgain_unity)
  from Suc.IH [OF c] c show ?case by (simp add: Let_def sc_gain_def)
qed

lemma gains_one_chunk:
  assumes "chunks s = 1" and "enveloperate lm s p sc_init = Fin 1"
  shows "gains lm s p = replicate 32 (gain lm p (Fin 1))"
proof -
  have "nat (chunks s) = Suc 0" using assms(1) by simp
  moreover have "compgain (sc_init\<lparr> maxcompdiffdb := chunk_maxcompdiffdb lm sc_init \<rparr>) = Fin 1"
    by (simp add: sc_init_def)
  ultimately show ?thesis
    by (simp add: gains_def assms(2) gains_samples_unity samplesperchunk_def)
qed

section \<open>Runs at 64 Hz\<close>

lemma frate_impulse: "frate snd_impulse = Fin 64"
  using frate_exact [of snd_impulse] by (simp add: snd_impulse_def)

lemma fl_16 [simp]: "fl 16 = Fin 16"
  using fl_of_int [of 16] by simp

lemma fl_sixteenth [simp]: "fl (1 / 16) = Fin (1 / 16)"
  using fl_exact [of "1 / 16" 1 "- 4"] powr_int [of "2::real" "- 4"] by simp

lemma delaybufsize_impulse:
  assumes "predelay p = 1 / 4"
  shows "delaybufsize snd_impulse p = 16"
  by (simp add: delaybufsize_def frate_impulse float_to_int_def assms)

lemma attacksamplesinv_impulse:
  assumes "attack p = 1 / 4"
  shows "attacksamplesinv snd_impulse p = Fin (1 / 16)"
  by (simp add: attacksamplesinv_def attacksamples_def frate_impulse assms)

lemma chunks_impulse: "chunks snd_impulse = 1"
  by (simp add: chunks_def snd_impulse_def samplesperchunk_def)

lemma gains_impulse:
  "attack p = 1 / 4 \<Longrightarrow> gains libm_c99 snd_impulse p = replicate 32 (gain libm_c99 p (Fin 1))"
  by (intro gains_one_chunk chunks_impulse enveloperate_init [where b = "1 / 16"])
     (simp_all add: attacksamplesinv_impulse)

lemma mastergain_dry: "mastergain libm_c99 params_dry = Fin 1"
  using mastergain_flat [of params_dry]
  by (simp add: params_dry_def params_flat_def sf_compressor_defaults_f_def db2lin_f_0)

lemma mastergain_mix: "mastergain libm_c99 params_mix = Fin 10"
proof -
  have "fl 10 = Fin 10" using fl_of_int [of 10] by simp
  then show ?thesis
    using mastergain_flat [of params_mix]
    by (simp add: params_mix_def params_flat_def sf_compressor_defaults_f_def db2lin_f_20)
qed

lemma mastergain_hot: "mastergain libm_c99 params_hot = PInf"
  using mastergain_flat [of params_hot]
  by (simp add: params_hot_def params_flat_def sf_compressor_defaults_f_def db2lin_f_800
      signed_inf_def)

lemma gain_dry: "gain libm_c99 params_dry (Fin 1) = Fin 1"
proof -
  have "wet params_dry = 0" by (simp add: params_dry_def)
  from gain_wet0 [OF this, of libm_c99 "Fin 1"] show ?thesis
    by (simp add: mastergain_dry premixgain_one is_finite_def)
qed

lemma gain_mix: "gain libm_c99 params_mix (Fin 1) = Fin (11 / 2)"
proof -
  have w: "wet params_mix = 1 / 2" by (simp add: params_mix_def)
  have a: "fl 5 = Fin 5" using fl_of_int [of 5] by simp
  have b: "fl (11 / 2) = Fin (11 / 2)" using fl_half_int [of 11] by simp
  show ?thesis by (simp add: gain_def dry_def fsub_def w mastergain_mix premixgain_one a b)
qed

lemma gain_hot: "gain libm_c99 params_hot cg = NaN"
proof -
  have w: "wet params_hot = 0" by (simp add: params_hot_def)
  show ?thesis by (simp add: gain_def w mastergain_hot)
qed

lemma impulse_out:
  assumes "apply_gain g zero_sample = z"
  shows "delayed_out snd_impulse 16 (replicate 32 g) 0 =
           replicate 15 z @ apply_gain g unit_sample # replicate 16 z"
proof (rule nth_equalityI)
  show "length (delayed_out snd_impulse 16 (replicate 32 g) 0) =
        length (replicate 15 z @ apply_gain g unit_sample # replicate 16 z)"
    by (simp add: length_delayed_out)
next
  fix n
  assume "n < length (delayed_out snd_impulse 16 (replicate 32 g) 0)"
  then have n: "n < 32" by (simp add: length_delayed_out)
  then have d: "delayed_out snd_impulse 16 (replicate 32 g) 0 ! n = apply_gain g (delayed snd_impulse 16 n)"
    by (simp add: nth_delayed_out)
  consider "n < 15" | "n = 15" | "16 \<le> n" by linarith
  then have "apply_gain g (delayed snd_impulse 16 n) =
             (replicate 15 z @ apply_gain g unit_sample # replicate 16 z) ! n"
  proof cases
    case 1
    then show ?thesis using assms by (simp add: delayed_def nth_append)
  next
    case 2
    then show ?thesis by (simp add: delayed_def snd_impulse_def nth_append)
  next
    case 3
    then obtain m where m: "n = 16 + m" using le_Suc_ex by blast
    with n have "m < 16" by simp
    then show ?thesis using assms by (simp add: m delayed_def snd_impulse_def nth_append)
  qed
  with d show "delayed_out snd_impulse 16 (replicate 32 g) 0 ! n =
             (replicate 15 z @ apply_gain g unit_sample # replicate 16 z) ! n" by simp
qed

lemma impulse_run:
  assumes "predelay p = 1 / 4" and "attack p = 1 / 4"
    and "apply_gain (gain libm_c99 p (Fin 1)) zero_sample = z"
  shows "sf_compressor al_ok snd_impulse p =
           (Inr (Some \<lparr> samples =
                          replicate 15 z @ apply_gain (gain libm_c99 p (Fin 1)) unit_sample # replicate 16 z,
                        size_snd = 0, rate = 0 \<rparr>),
            {OutSnd, OutSamples})"
proof -
  have S: "delaybufsize snd_impulse p = 16" by (rule delaybufsize_impulse [OF assms(1)])
  have "sf_compressor al_ok snd_impulse p =
          (Inr (Some ((fresh_snd al_ok)\<lparr> samples :=
             delayed_out snd_impulse (nat (delaybufsize snd_impulse p)) (gains (clib al_ok) snd_impulse p) 0 \<rparr>)),
           {OutSnd, OutSamples})"
  proof (rule sf_compressor_run)
    show "2 \<le> delaybufsize snd_impulse p" by (simp add: S)
  qed (simp_all add: al_ok_def snd_impulse_def)
  moreover have "clib al_ok = libm_c99" by (simp add: al_ok_def)
  moreover have "nat (delaybufsize snd_impulse p) = 16" by (simp add: S)
  ultimately show ?thesis
    by (simp add: gains_impulse [OF assms(2)] impulse_out [OF assms(3)] al_ok_def)
qed

section \<open>The adaptive release polynomial\<close>

lemma releasecurve_points:
  "releasecurve s p 0 = y1 s p"
  "releasecurve s p 1 = y2 s p"
  "releasecurve s p 2 = y3 s p"
  "releasecurve s p 3 = y4 s p"
  by (simp_all add: releasecurve_def adaptivereleasecurve_def Let_def
      coef_a_def coef_b_def coef_c_def coef_d_def field_simps)

lemma cubic_unique:
  fixes a b c d :: real
  assumes "adaptivereleasecurve 0 a b c d = adaptivereleasecurve 0 a' b' c' d'"
    and "adaptivereleasecurve 1 a b c d = adaptivereleasecurve 1 a' b' c' d'"
    and "adaptivereleasecurve 2 a b c d = adaptivereleasecurve 2 a' b' c' d'"
    and "adaptivereleasecurve 3 a b c d = adaptivereleasecurve 3 a' b' c' d'"
  shows "a = a' \<and> b = b' \<and> c = c' \<and> d = d'"
  using assms by (simp add: adaptivereleasecurve_def Let_def)

text \<open>
  Claim C8.  For every release time and zone fractions, the coefficients \<open>a\<close>, \<open>b\<close>,
  \<open>c\<close>, \<open>d\<close> that \<^verbatim>\<open>sf_compressor\<close> computes give a cubic that takes the values
  \<open>y1\<close>, \<open>y2\<close>, \<open>y3\<close>, \<open>y4\<close> (\<open>yi = releasesamples * releasezone_i\<close>) at 0, 1, 2, 3, and
  no other cubic does (in exact arithmetic).
\<close>

theorem release_polynomial_interpolates:
  "y1 s p = releasesamples s p * releasezone1 p \<and> y2 s p = releasesamples s p * releasezone2 p \<and>
   y3 s p = releasesamples s p * releasezone3 p \<and> y4 s p = releasesamples s p * releasezone4 p \<and>
   adaptivereleasecurve 0 (coef_a s p) (coef_b s p) (coef_c s p) (coef_d s p) = y1 s p \<and>
   adaptivereleasecurve 1 (coef_a s p) (coef_b s p) (coef_c s p) (coef_d s p) = y2 s p \<and>
   adaptivereleasecurve 2 (coef_a s p) (coef_b s p) (coef_c s p) (coef_d s p) = y3 s p \<and>
   adaptivereleasecurve 3 (coef_a s p) (coef_b s p) (coef_c s p) (coef_d s p) = y4 s p \<and>
   (\<forall>a' b' c' d'.
      adaptivereleasecurve 0 a' b' c' d' = y1 s p \<and> adaptivereleasecurve 1 a' b' c' d' = y2 s p \<and>
      adaptivereleasecurve 2 a' b' c' d' = y3 s p \<and> adaptivereleasecurve 3 a' b' c' d' = y4 s p
      \<longrightarrow> a' = coef_a s p \<and> b' = coef_b s p \<and> c' = coef_c s p \<and> d' = coef_d s p)"
proof -
  have pts:
    "adaptivereleasecurve 0 (coef_a s p) (coef_b s p) (coef_c s p) (coef_d s p) = y1 s p"
    "adaptivereleasecurve 1 (coef_a s p) (coef_b s p) (coef_c s p) (coef_d s p) = y2 s p"
    "adaptivereleasecurve 2 (coef_a s p) (coef_b s p) (coef_c s p) (coef_d s p) = y3 s p"
    "adaptivereleasecurve 3 (coef_a s p) (coef_b s p) (coef_c s p) (coef_d s p) = y4 s p"
    using releasecurve_points [of s p] by (simp_all add: releasecurve_def)
  have uniq: "a' = coef_a s p \<and> b' = coef_b s p \<and> c' = coef_c s p \<and> d' = coef_d s p"
    if "adaptivereleasecurve 0 a' b' c' d' = y1 s p \<and> adaptivereleasecurve 1 a' b' c' d' = y2 s p \<and>
        adaptivereleasecurve 2 a' b' c' d' = y3 s p \<and> adaptivereleasecurve 3 a' b' c' d' = y4 s p"
    for a' b' c' d'
    using that pts cubic_unique [of a' b' c' d' "coef_a s p" "coef_b s p" "coef_c s p" "coef_d s p"]
    by simp
  have ys: "y1 s p = releasesamples s p * releasezone1 p \<and> y2 s p = releasesamples s p * releasezone2 p \<and>
   y3 s p = releasesamples s p * releasezone3 p \<and> y4 s p = releasesamples s p * releasezone4 p"
    by (simp add: y1_def y2_def y3_def y4_def)
  from ys pts uniq show ?thesis by blast
qed

lemma ys0:
  "y1 snd0 sf_compressor_defaults = 3969 / 4" "y2 snd0 sf_compressor_defaults = 1764"
  "y3 snd0 sf_compressor_defaults = 9261 / 2" "y4 snd0 sf_compressor_defaults = 21609 / 2"
  by (simp_all add: y1_def y2_def y3_def y4_def releasesamples_def snd0_def sf_compressor_defaults_def)

theorem release_polynomial_interpolates_witness:
  "adaptivereleasecurve 2 (coef_a snd0 sf_compressor_defaults) (coef_b snd0 sf_compressor_defaults)
      (coef_c snd0 sf_compressor_defaults) (coef_d snd0 sf_compressor_defaults) = 9261 / 2 \<and>
   coef_a snd0 sf_compressor_defaults = 1617 / 8 \<and> coef_b snd0 sf_compressor_defaults = 441 \<and>
   coef_c snd0 sf_compressor_defaults = 1029 / 8 \<and> coef_d snd0 sf_compressor_defaults = 3969 / 4"
proof -
  have hyp:
    "adaptivereleasecurve 0 (1617 / 8) 441 (1029 / 8) (3969 / 4) = y1 snd0 sf_compressor_defaults \<and>
     adaptivereleasecurve 1 (1617 / 8) 441 (1029 / 8) (3969 / 4) = y2 snd0 sf_compressor_defaults \<and>
     adaptivereleasecurve 2 (1617 / 8) 441 (1029 / 8) (3969 / 4) = y3 snd0 sf_compressor_defaults \<and>
     adaptivereleasecurve 3 (1617 / 8) 441 (1029 / 8) (3969 / 4) = y4 snd0 sf_compressor_defaults"
    by (simp add: ys0 adaptivereleasecurve_def Let_def)
  note inst = release_polynomial_interpolates [of snd0 sf_compressor_defaults]
  from inst hyp have cs: "1617 / 8 = coef_a snd0 sf_compressor_defaults \<and> 441 = coef_b snd0 sf_compressor_defaults \<and>
    1029 / 8 = coef_c snd0 sf_compressor_defaults \<and> 3969 / 4 = coef_d snd0 sf_compressor_defaults"
    by blast
  from inst have "adaptivereleasecurve 2 (coef_a snd0 sf_compressor_defaults) (coef_b snd0 sf_compressor_defaults)
      (coef_c snd0 sf_compressor_defaults) (coef_d snd0 sf_compressor_defaults) = y3 snd0 sf_compressor_defaults"
    by blast
  with cs show ?thesis by (simp add: ys0)
qed

section \<open>Allocation failure\<close>

text \<open>
  Claim C9.  If any of the three allocations fails (the pre-delay buffer, the output
  sound object, the output sample array), \<^verbatim>\<open>sf_compressor\<close> returns \<^verbatim>\<open>NULL\<close>, never a
  sound, and nothing it allocated is still live.
\<close>

theorem allocation_failure_returns_null:
  "\<not> (delaybuf_ok al \<and> out_ok al \<and> out_samples_ok al) \<Longrightarrow> sf_compressor al s p = (Inr None, {})"
  by (auto simp add: sf_compressor_def malloc_res_def free_res_def sf_snd_free_def)

theorem allocation_failure_returns_null_witness:
  "\<not> (delaybuf_ok (al_ok\<lparr>out_samples_ok := False\<rparr>) \<and> out_ok (al_ok\<lparr>out_samples_ok := False\<rparr>)
       \<and> out_samples_ok (al_ok\<lparr>out_samples_ok := False\<rparr>)) \<and>
   sf_compressor (al_ok\<lparr>out_samples_ok := False\<rparr>) snd0 sf_compressor_defaults = (Inr None, {})"
  using allocation_failure_returns_null [of "al_ok\<lparr>out_samples_ok := False\<rparr>" snd0 sf_compressor_defaults]
  by (simp add: al_ok_def)

section \<open>The compression curve\<close>

lemma db2lin_pos: "0 < db2lin d"
  by (simp add: db2lin_def)

lemma db2lin_mono: "d \<le> d' \<Longrightarrow> db2lin d \<le> db2lin d'"
  by (simp add: db2lin_def)

lemma db2lin_strict_mono: "d < d' \<Longrightarrow> db2lin d < db2lin d'"
  by (simp add: db2lin_def)

lemma lin2db_db2lin: "lin2db (db2lin d) = d"
  by (simp add: db2lin_def lin2db_def)

lemma db2lin_lin2db: "0 < x \<Longrightarrow> db2lin (lin2db x) = x"
  by (simp add: db2lin_def lin2db_def)

lemma lin2db_mono: "0 < x \<Longrightarrow> x \<le> y \<Longrightarrow> lin2db x \<le> lin2db y"
  by (simp add: lin2db_def)

lemma ksearch_pos:
  "0 < k \<Longrightarrow> 0 < mink \<Longrightarrow> 0 < maxk \<Longrightarrow> 0 < ksearch n xk lt sl (k, mink, maxk)"
  by (induction n arbitrary: k mink maxk) simp_all

lemma knee_k_pos: "0 < knee_k p"
  by (simp add: knee_k_def ksearch_pos)

lemma kneecurve_at_threshold: "kneecurve lt k lt = lt"
  by (simp add: kneecurve_def)

lemma kneecurve_mono:
  assumes "0 < k" and "x \<le> y"
  shows "kneecurve x k lt \<le> kneecurve y k lt"
proof -
  from assms have "- k * (y - lt) \<le> - k * (x - lt)" by simp
  then have "exp (- k * (y - lt)) \<le> exp (- k * (x - lt))" by simp
  then have "(1 - exp (- k * (x - lt))) / k \<le> (1 - exp (- k * (y - lt))) / k"
    using assms(1) by (simp add: divide_right_mono)
  then show ?thesis by (simp add: kneecurve_def)
qed

lemma kneecurve_ge_threshold: "0 < k \<Longrightarrow> lt \<le> x \<Longrightarrow> lt \<le> kneecurve x k lt"
  using kneecurve_mono [of k lt x lt] by (simp add: kneecurve_at_threshold)

lemma ratio_segment_mono:
  assumes "0 \<le> sl" and "0 < x" and "x \<le> y"
  shows "db2lin (c + sl * (lin2db x - d)) \<le> db2lin (c + sl * (lin2db y - d))"
proof -
  from assms(2,3) have "lin2db x \<le> lin2db y" by (rule lin2db_mono)
  with assms(1) have "sl * (lin2db x - d) \<le> sl * (lin2db y - d)"
    by (simp add: mult_left_mono)
  then show ?thesis by (simp add: db2lin_mono)
qed

lemma continuous_db2lin:
  "continuous_on A f \<Longrightarrow> continuous_on A (\<lambda>x. db2lin (f x))"
  unfolding db2lin_def powr_def by (auto intro!: continuous_intros)

lemma continuous_lin2db:
  "\<forall>x\<in>A. 0 < x \<Longrightarrow> continuous_on A lin2db"
  unfolding lin2db_def log_def by (auto intro!: continuous_intros)

lemma continuous_ratio_segment:
  assumes "\<forall>x\<in>A. 0 < x"
  shows "continuous_on A (\<lambda>x. db2lin (c + sl * (lin2db x - d)))"
  by (intro continuous_db2lin continuous_intros continuous_lin2db assms)

lemma continuous_kneecurve:
  "k \<noteq> 0 \<Longrightarrow> continuous_on A (\<lambda>x. kneecurve x k lt)"
  unfolding kneecurve_def by (auto intro!: continuous_intros)

lemma compcurve_below: "x < lt \<Longrightarrow> compcurve x k sl lt ltk th kn kdo = x"
  by (simp add: compcurve_def)

lemma compcurve_noknee:
  "lt \<le> x \<Longrightarrow> kn \<le> 0 \<Longrightarrow>
   compcurve x k sl lt ltk th kn kdo = db2lin (th + sl * (lin2db x - th))"
  by (simp add: compcurve_def)

lemma compcurve_knee:
  "lt \<le> x \<Longrightarrow> x < ltk \<Longrightarrow> 0 < kn \<Longrightarrow>
   compcurve x k sl lt ltk th kn kdo = kneecurve x k lt"
  by (simp add: compcurve_def)

lemma compcurve_above:
  "lt \<le> x \<Longrightarrow> ltk \<le> x \<Longrightarrow> 0 < kn \<Longrightarrow>
   compcurve x k sl lt ltk th kn kdo = db2lin (kdo + sl * (lin2db x - th - kn))"
  by (simp add: compcurve_def)

lemma noknee_at_threshold: "db2lin (th + sl * (lin2db (db2lin th) - th)) = db2lin th"
  by (simp add: lin2db_db2lin)

lemma knee_boundary:
  assumes "0 < k" and "0 < kn"
  shows "db2lin (lin2db (kneecurve (db2lin (th + kn)) k (db2lin th))
           + sl * (lin2db (db2lin (th + kn)) - th - kn)) =
         kneecurve (db2lin (th + kn)) k (db2lin th)"
proof -
  from assms(2) have "db2lin th \<le> db2lin (th + kn)" by (simp add: db2lin_mono)
  with assms(1) have "db2lin th \<le> kneecurve (db2lin (th + kn)) k (db2lin th)"
    by (rule kneecurve_ge_threshold)
  with db2lin_pos [of th] have "0 < kneecurve (db2lin (th + kn)) k (db2lin th)" by linarith
  then show ?thesis by (simp add: lin2db_db2lin db2lin_lin2db)
qed

lemma compcurve_mono_noknee:
  assumes sl: "0 \<le> sl" and kn: "kn \<le> 0" and xy: "x \<le> y"
  shows "compcurve x k sl (db2lin th) ltk th kn kdo \<le> compcurve y k sl (db2lin th) ltk th kn kdo"
proof -
  let ?lt = "db2lin th"
  let ?A = "\<lambda>x. db2lin (th + sl * (lin2db x - th))"
  have Amono: "?A u \<le> ?A v" if "?lt \<le> u" "u \<le> v" for u v
    using sl that db2lin_pos [of th] by (intro ratio_segment_mono) linarith+
  consider "y < ?lt" | "x < ?lt" "?lt \<le> y" | "?lt \<le> x" by linarith
  then show ?thesis
  proof cases
    case 1
    with xy show ?thesis by (simp add: compcurve_below)
  next
    case 2
    have "?lt = ?A ?lt" by (simp add: noknee_at_threshold)
    also have "\<dots> \<le> ?A y" using 2 by (intro Amono) simp_all
    finally show ?thesis using 2 kn by (simp add: compcurve_below compcurve_noknee)
  next
    case 3
    with xy kn show ?thesis by (simp add: compcurve_noknee Amono)
  qed
qed

lemma compcurve_mono_knee:
  assumes sl: "0 \<le> sl" and kn: "0 < kn" and k: "0 < k" and xy: "x \<le> y"
  shows "compcurve x k sl (db2lin th) (db2lin (th + kn)) th kn
           (lin2db (kneecurve (db2lin (th + kn)) k (db2lin th))) \<le>
         compcurve y k sl (db2lin th) (db2lin (th + kn)) th kn
           (lin2db (kneecurve (db2lin (th + kn)) k (db2lin th)))"
proof -
  let ?lt = "db2lin th"
  let ?ltk = "db2lin (th + kn)"
  let ?kdo = "lin2db (kneecurve ?ltk k ?lt)"
  let ?K = "\<lambda>x. kneecurve x k ?lt"
  let ?B = "\<lambda>x. db2lin (?kdo + sl * (lin2db x - th - kn))"
  let ?f = "\<lambda>x. compcurve x k sl ?lt ?ltk th kn ?kdo"
  have ltpos: "0 < ?lt" by (rule db2lin_pos)
  have lt_ltk: "?lt < ?ltk" using kn by (simp add: db2lin_strict_mono)
  have Bmono: "?B u \<le> ?B v" if "?ltk \<le> u" "u \<le> v" for u v
  proof -
    from that ltpos lt_ltk have "0 < u" by linarith
    from ratio_segment_mono [OF sl this that(2), of ?kdo "th + kn"]
    show ?thesis by (simp add: diff_diff_eq)
  qed
  have Bk: "?B ?ltk = ?K ?ltk" using k kn by (rule knee_boundary)
  have ge: "?lt \<le> ?f u" if "?lt \<le> u" for u
  proof (cases "u < ?ltk")
    case True
    with that kn k show ?thesis by (simp add: compcurve_knee kneecurve_ge_threshold)
  next
    case False
    have "?lt \<le> ?K ?ltk" using k lt_ltk by (intro kneecurve_ge_threshold) simp_all
    also have "\<dots> = ?B ?ltk" using Bk by simp
    also have "\<dots> \<le> ?B u" using False by (intro Bmono) simp_all
    finally show ?thesis using False that kn by (simp add: compcurve_above)
  qed
  consider "y < ?lt" | "x < ?lt" "?lt \<le> y" | "?lt \<le> x" "y < ?ltk"
    | "?lt \<le> x" "x < ?ltk" "?ltk \<le> y" | "?ltk \<le> x"
    by linarith
  then show ?thesis
  proof cases
    case 1
    with xy show ?thesis by (simp add: compcurve_below)
  next
    case 2
    then have "?f x = x" by (simp add: compcurve_below)
    with 2 ge [of y] show ?thesis by simp
  next
    case 3
    with xy kn have "?f x = ?K x" "?f y = ?K y" by (simp_all add: compcurve_knee)
    with k xy show ?thesis by (simp add: kneecurve_mono)
  next
    case 4
    with kn lt_ltk have fx: "?f x = ?K x" and fy: "?f y = ?B y"
      by (simp_all add: compcurve_knee compcurve_above)
    have "?K x \<le> ?K ?ltk" using k 4 by (intro kneecurve_mono) simp_all
    also have "\<dots> = ?B ?ltk" using Bk by simp
    also have "\<dots> \<le> ?B y" using 4 by (intro Bmono) simp_all
    finally show ?thesis using fx fy by simp
  next
    case 5
    with xy kn lt_ltk have "?f x = ?B x" "?f y = ?B y" by (simp_all add: compcurve_above)
    with 5 xy show ?thesis by (simp add: Bmono)
  qed
qed

lemma compcurve_continuous_noknee:
  assumes kn: "kn \<le> 0"
  shows "continuous_on {0..} (\<lambda>x. compcurve x k sl (db2lin th) ltk th kn kdo)"
proof -
  let ?lt = "db2lin th"
  let ?f = "\<lambda>x. compcurve x k sl ?lt ltk th kn kdo"
  have ltpos: "0 < ?lt" by (rule db2lin_pos)
  have 1: "continuous_on {0..?lt} ?f"
  proof -
    have "?f x = x" if "x \<in> {0..?lt}" for x
    proof (cases "x < ?lt")
      case True
      then show ?thesis by (simp add: compcurve_below)
    next
      case False
      with that have "x = ?lt" by simp
      with kn show ?thesis by (simp add: compcurve_noknee noknee_at_threshold)
    qed
    then have "continuous_on {0..?lt} ?f \<longleftrightarrow> continuous_on {0..?lt} (\<lambda>x. x)"
      by (intro continuous_on_cong) simp_all
    then show ?thesis by simp
  qed
  have 2: "continuous_on {?lt..} ?f"
  proof -
    have "?f x = db2lin (th + sl * (lin2db x - th))" if "x \<in> {?lt..}" for x
      using that kn by (simp add: compcurve_noknee)
    then have "continuous_on {?lt..} ?f \<longleftrightarrow>
        continuous_on {?lt..} (\<lambda>x. db2lin (th + sl * (lin2db x - th)))"
      by (intro continuous_on_cong) simp_all
    moreover have "continuous_on {?lt..} (\<lambda>x. db2lin (th + sl * (lin2db x - th)))"
      using ltpos by (intro continuous_ratio_segment) auto
    ultimately show ?thesis by simp
  qed
  have "{0..} = {0..?lt} \<union> {?lt..}" using ltpos by auto
  moreover have "continuous_on ({0..?lt} \<union> {?lt..}) ?f"
    using 1 2 by (intro continuous_on_closed_Un) simp_all
  ultimately show ?thesis by simp
qed

lemma compcurve_continuous_knee:
  assumes kn: "0 < kn" and k: "0 < k"
  shows "continuous_on {0..}
           (\<lambda>x. compcurve x k sl (db2lin th) (db2lin (th + kn)) th kn
                  (lin2db (kneecurve (db2lin (th + kn)) k (db2lin th))))"
proof -
  let ?lt = "db2lin th"
  let ?ltk = "db2lin (th + kn)"
  let ?kdo = "lin2db (kneecurve ?ltk k ?lt)"
  let ?K = "\<lambda>x. kneecurve x k ?lt"
  let ?B = "\<lambda>x. db2lin (?kdo + sl * (lin2db x - th - kn))"
  let ?f = "\<lambda>x. compcurve x k sl ?lt ?ltk th kn ?kdo"
  have ltpos: "0 < ?lt" by (rule db2lin_pos)
  have lt_ltk: "?lt < ?ltk" using kn by (simp add: db2lin_strict_mono)
  have Bk: "?B ?ltk = ?K ?ltk" using k kn by (rule knee_boundary)
  have 1: "continuous_on {0..?lt} ?f"
  proof -
    have "?f x = x" if "x \<in> {0..?lt}" for x
    proof (cases "x < ?lt")
      case True
      then show ?thesis by (simp add: compcurve_below)
    next
      case False
      with that have "x = ?lt" by simp
      with kn lt_ltk show ?thesis by (simp add: compcurve_knee kneecurve_at_threshold)
    qed
    then have "continuous_on {0..?lt} ?f \<longleftrightarrow> continuous_on {0..?lt} (\<lambda>x. x)"
      by (intro continuous_on_cong) simp_all
    then show ?thesis by simp
  qed
  have 2: "continuous_on {?lt..?ltk} ?f"
  proof -
    have "?f x = ?K x" if "x \<in> {?lt..?ltk}" for x
    proof (cases "x < ?ltk")
      case True
      with that kn show ?thesis by (simp add: compcurve_knee)
    next
      case False
      with that have x: "x = ?ltk" by simp
      with kn lt_ltk have "?f x = ?B ?ltk" by (simp add: compcurve_above)
      with Bk x show ?thesis by simp
    qed
    then have "continuous_on {?lt..?ltk} ?f \<longleftrightarrow> continuous_on {?lt..?ltk} ?K"
      by (intro continuous_on_cong) simp_all
    moreover have "continuous_on {?lt..?ltk} ?K"
      using k by (intro continuous_kneecurve) simp
    ultimately show ?thesis by simp
  qed
  have 3: "continuous_on {?ltk..} ?f"
  proof -
    have "?f x = ?B x" if "x \<in> {?ltk..}" for x
      using that kn lt_ltk by (simp add: compcurve_above)
    then have "continuous_on {?ltk..} ?f \<longleftrightarrow> continuous_on {?ltk..} ?B"
      by (intro continuous_on_cong) simp_all
    moreover have "continuous_on {?ltk..} (\<lambda>x. db2lin (?kdo + sl * (lin2db x - (th + kn))))"
      using ltpos lt_ltk by (intro continuous_ratio_segment) auto
    then have "continuous_on {?ltk..} ?B" by (simp add: diff_diff_eq)
    ultimately show ?thesis by simp
  qed
  have "{0..} = {0..?lt} \<union> ({?lt..?ltk} \<union> {?ltk..})" using ltpos lt_ltk by auto
  moreover have "continuous_on ({0..?lt} \<union> ({?lt..?ltk} \<union> {?ltk..})) ?f"
    using 1 2 3 by (intro continuous_on_closed_Un closed_Un) simp_all
  ultimately show ?thesis by simp
qed

lemma slope_nonneg: "0 < ratio p \<Longrightarrow> 0 \<le> slope p"
  by (simp add: slope_def)

lemma curve_knee_unfold:
  "0 < knee p \<Longrightarrow>
   curve p = (\<lambda>x. compcurve x (knee_k p) (slope p) (db2lin (threshold p))
                (db2lin (threshold p + knee p)) (threshold p) (knee p)
                (lin2db (kneecurve (db2lin (threshold p + knee p)) (knee_k p) (db2lin (threshold p)))))"
  by (rule ext) (simp add: curve_def linearthreshold_def linearthresholdknee_def kneedboffset_def xknee_def)

lemma curve_noknee_unfold:
  "knee p \<le> 0 \<Longrightarrow>
   curve p = (\<lambda>x. compcurve x (knee_k p) (slope p) (db2lin (threshold p))
                (linearthresholdknee p) (threshold p) (knee p) (kneedboffset p))"
  by (rule ext) (simp add: curve_def linearthreshold_def)

text \<open>
  Claim C5.  For the run constants of a parameter set with a positive ratio, the
  compression curve is continuous and non-decreasing on \<open>[0, \<infinity>)\<close>, and at the upper end
  of the knee, \<open>x = linearthresholdknee\<close>, the knee branch and the branch above the knee
  give the same value (exact arithmetic).
\<close>

theorem compcurve_continuous_and_monotone:
  assumes "0 < ratio p"
  shows "continuous_on {0..} (curve p) \<and>
         (\<forall>x y. 0 \<le> x \<and> x \<le> y \<longrightarrow> curve p x \<le> curve p y) \<and>
         (0 < knee p \<longrightarrow>
            kneecurve (linearthresholdknee p) (knee_k p) (linearthreshold p) =
            db2lin (kneedboffset p + slope p * (lin2db (linearthresholdknee p) - threshold p - knee p)))"
proof (cases "0 < knee p")
  case True
  have "continuous_on {0..} (curve p)"
    unfolding curve_knee_unfold [OF True]
    using True knee_k_pos by (rule compcurve_continuous_knee)
  moreover have "curve p x \<le> curve p y" if "x \<le> y" for x y
    unfolding curve_knee_unfold [OF True]
    using slope_nonneg [OF assms] True knee_k_pos that by (rule compcurve_mono_knee)
  moreover have "kneecurve (linearthresholdknee p) (knee_k p) (linearthreshold p) =
      db2lin (kneedboffset p + slope p * (lin2db (linearthresholdknee p) - threshold p - knee p))"
    using knee_boundary [where k = "knee_k p" and kn = "knee p" and th = "threshold p" and sl = "slope p"]
      knee_k_pos [of p] True
    by (simp add: linearthreshold_def linearthresholdknee_def kneedboffset_def xknee_def)
  ultimately show ?thesis by blast
next
  case False
  then have kn: "knee p \<le> 0" by simp
  have "continuous_on {0..} (curve p)"
    unfolding curve_noknee_unfold [OF kn]
    using kn by (rule compcurve_continuous_noknee)
  moreover have "curve p x \<le> curve p y" if "x \<le> y" for x y
    unfolding curve_noknee_unfold [OF kn]
    using slope_nonneg [OF assms] kn that by (rule compcurve_mono_noknee)
  ultimately show ?thesis using False by blast
qed

theorem compcurve_continuous_and_monotone_witness:
  "0 < ratio sf_compressor_defaults \<and> 0 < knee sf_compressor_defaults \<and>
   continuous_on {0..} (curve sf_compressor_defaults) \<and>
   curve sf_compressor_defaults (1 / 2) \<le> curve sf_compressor_defaults 1 \<and>
   kneecurve (linearthresholdknee sf_compressor_defaults) (knee_k sf_compressor_defaults)
       (linearthreshold sf_compressor_defaults) =
     db2lin (kneedboffset sf_compressor_defaults + slope sf_compressor_defaults *
       (lin2db (linearthresholdknee sf_compressor_defaults) - threshold sf_compressor_defaults
          - knee sf_compressor_defaults))"
proof -
  have r: "0 < ratio sf_compressor_defaults" and kn: "0 < knee sf_compressor_defaults"
    by (simp_all add: sf_compressor_defaults_def)
  note inst = compcurve_continuous_and_monotone [OF r]
  from inst have c: "continuous_on {0..} (curve sf_compressor_defaults)" by blast
  from inst have "(0::real) \<le> 1 / 2 \<and> (1 / 2 :: real) \<le> 1 \<longrightarrow>
      curve sf_compressor_defaults (1 / 2) \<le> curve sf_compressor_defaults 1" by blast
  then have m: "curve sf_compressor_defaults (1 / 2) \<le> curve sf_compressor_defaults 1" by simp
  from inst kn have b: "kneecurve (linearthresholdknee sf_compressor_defaults) (knee_k sf_compressor_defaults)
       (linearthreshold sf_compressor_defaults) =
     db2lin (kneedboffset sf_compressor_defaults + slope sf_compressor_defaults *
       (lin2db (linearthresholdknee sf_compressor_defaults) - threshold sf_compressor_defaults
          - knee sf_compressor_defaults))" by blast
  from r kn c m b show ?thesis by blast
qed

section \<open>Facts about the concrete inputs\<close>

lemma impulse_hyps:
  "delaybuf_ok al_ok" "out_ok al_ok" "out_samples_ok al_ok"
  "size_snd snd_impulse = int (length (samples snd_impulse))"
  "clib al_ok = libm_c99" "length (samples snd_impulse) = 32"
  by (simp_all add: al_ok_def snd_impulse_def)

lemma params_fields:
  "predelay params_dry = 1 / 4" "attack params_dry = 1 / 4" "wet params_dry = 0"
  "predelay params_mix = 1 / 4" "attack params_mix = 1 / 4" "wet params_mix = 1 / 2"
  "predelay params_hot = 1 / 4" "attack params_hot = 1 / 4" "wet params_hot = 0"
  "postgain params_hot = 800" "postgain params_mix = 20" "postgain params_dry = 0"
  by (simp_all add: params_dry_def params_mix_def params_hot_def params_flat_def
      sf_compressor_defaults_f_def)

lemma unit_sample_float: "float_sample unit_sample" "float_sample zero_sample"
  by (simp_all add: float_sample_def is_float_def unit_sample_def zero_sample_def
      one_cfloat_def zero_cfloat_def)

lemma impulse_float: "\<forall>x \<in> set (samples snd_impulse). float_sample x"
  by (auto simp add: snd_impulse_def unit_sample_float)

lemma apply_gain_mix_unit:
  "apply_gain (Fin (11 / 2)) unit_sample = \<lparr> L = Fin (11 / 2), R = Fin (11 / 2) \<rparr>"
proof -
  have "fl (11 / 2) = Fin (11 / 2)" using fl_half_int [of 11] by simp
  then show ?thesis by (simp add: apply_gain_def unit_sample_def one_cfloat_def)
qed

lemma apply_gain_zero_rec:
  "apply_gain g \<lparr> L = 0, R = 0 \<rparr> =
     (if is_finite g then \<lparr> L = 0, R = 0 \<rparr> else \<lparr> L = NaN, R = NaN \<rparr>)"
  using apply_gain_zero [of g] by (simp add: zero_sample_def nan_sample_def)

lemma apply_gain_zero_finite: "apply_gain (Fin g) zero_sample = \<lparr> L = 0, R = 0 \<rparr>"
  using apply_gain_zero_rec [of "Fin g"] by (simp add: zero_sample_def is_finite_def)

lemma apply_gain_any_NaN: "apply_gain NaN x = \<lparr> L = NaN, R = NaN \<rparr>"
  by (simp add: apply_gain_NaN nan_sample_def)

lemma impulse_samples:
  "samples snd_impulse ! 0 = \<lparr> L = 1, R = 1 \<rparr>"
  "samples snd_impulse ! 1 = \<lparr> L = 0, R = 0 \<rparr>"
  "samples snd_impulse ! Suc 0 = \<lparr> L = 0, R = 0 \<rparr>"
  by (simp_all add: snd_impulse_def unit_sample_def zero_sample_def)

section \<open>Silence before the first delayed sample\<close>

text \<open>
  Claim C10, as the code has it.  When the delay buffer has \<open>S \<ge> 2\<close> slots, each of the
  first \<open>S - 1\<close> output samples is the product of a zero that \<^verbatim>\<open>memset\<close> left in the
  buffer and the gain of that sample: zero on both channels when the gain is finite, NaN
  on both channels when the gain is an infinity or NaN.
\<close>

theorem leading_outputs_zero_times_gain:
  assumes "delaybuf_ok al" and "out_ok al" and "out_samples_ok al"
    and "size_snd s = int (length (samples s))"
    and "2 \<le> delaybufsize s p"
  shows "\<exists>out. sf_compressor al s p = (Inr (Some out), {OutSnd, OutSamples}) \<and>
           length (samples out) = 32 * (length (samples s) div 32) \<and>
           (\<forall>n < length (samples out). n < nat (delaybufsize s p) - 1 \<longrightarrow>
              samples out ! n =
                (if is_finite (gains (clib al) s p ! n) then \<lparr> L = 0, R = 0 \<rparr>
                 else \<lparr> L = NaN, R = NaN \<rparr>))"
proof -
  from run_samples [OF assms] obtain out
    where o: "sf_compressor al s p = (Inr (Some out), {OutSnd, OutSamples})"
      and l: "length (samples out) = 32 * (length (samples s) div 32)"
      and n: "\<forall>n < length (samples out).
                samples out ! n =
                  apply_gain (gains (clib al) s p ! n)
                    (if n < nat (delaybufsize s p) - 1 then zero_sample
                     else samples s ! (n - (nat (delaybufsize s p) - 1)))"
    by blast
  have "samples out ! n =
          (if is_finite (gains (clib al) s p ! n) then \<lparr> L = 0, R = 0 \<rparr> else \<lparr> L = NaN, R = NaN \<rparr>)"
    if "n < length (samples out)" "n < nat (delaybufsize s p) - 1" for n
    using n that by (simp add: zero_sample_def apply_gain_zero_rec)
  with o l show ?thesis by blast
qed

theorem leading_outputs_zero_times_gain_witness:
  "delaybuf_ok al_ok \<and> out_ok al_ok \<and> out_samples_ok al_ok \<and>
   size_snd snd_impulse = int (length (samples snd_impulse)) \<and>
   delaybufsize snd_impulse params_mix = 16 \<and>
   gains libm_c99 snd_impulse params_mix ! 14 = Fin (11 / 2) \<and>
   (\<exists>out. sf_compressor al_ok snd_impulse params_mix = (Inr (Some out), {OutSnd, OutSamples}) \<and>
      length (samples out) = 32 \<and> samples out ! 14 = \<lparr> L = 0, R = 0 \<rparr>)"
proof -
  have S: "delaybufsize snd_impulse params_mix = 16"
    by (rule delaybufsize_impulse) (rule params_fields)
  then have h5: "2 \<le> delaybufsize snd_impulse params_mix" by simp
  have g: "gains libm_c99 snd_impulse params_mix ! 14 = Fin (11 / 2)"
    by (simp add: gains_impulse params_fields gain_mix)
  from leading_outputs_zero_times_gain [OF impulse_hyps(1-4) h5]
  obtain out where o: "sf_compressor al_ok snd_impulse params_mix = (Inr (Some out), {OutSnd, OutSamples})"
    and l: "length (samples out) = 32 * (length (samples snd_impulse) div 32)"
    and z: "\<forall>n < length (samples out). n < nat (delaybufsize snd_impulse params_mix) - 1 \<longrightarrow>
              samples out ! n =
                (if is_finite (gains (clib al_ok) snd_impulse params_mix ! n) then \<lparr> L = 0, R = 0 \<rparr>
                 else \<lparr> L = NaN, R = NaN \<rparr>)"
    by blast
  from l have l32: "length (samples out) = 32" by (simp add: impulse_hyps)
  with z have "samples out ! 14 = \<lparr> L = 0, R = 0 \<rparr>"
    by (simp add: S impulse_hyps g is_finite_def)
  with impulse_hyps(1-4) S g o l32 show ?thesis by blast
qed

text \<open>
  Against claim C10 as stated: with \<^verbatim>\<open>wet = 0\<close> and a post-gain of 800 dB the master gain
  is +infinity, \<^verbatim>\<open>params.wet * mastergain\<close> is NaN and so is the gain of every sample.
  The delay buffer has 16 slots, and the first 15 output samples are NaN, not zero (as
  are the other 17).
\<close>

theorem leading_outputs_zero_counterexample:
  "delaybufsize snd_impulse params_hot = 16 \<and>
   mastergain libm_c99 params_hot = PInf \<and>
   sf_compressor al_ok snd_impulse params_hot =
     (Inr (Some \<lparr> samples = replicate 15 \<lparr> L = NaN, R = NaN \<rparr> @ \<lparr> L = NaN, R = NaN \<rparr> #
                               replicate 16 \<lparr> L = NaN, R = NaN \<rparr>,
                  size_snd = 0, rate = 0 \<rparr>),
      {OutSnd, OutSamples})"
proof -
  have S: "delaybufsize snd_impulse params_hot = 16"
    by (rule delaybufsize_impulse) (rule params_fields)
  have z: "apply_gain (gain libm_c99 params_hot (Fin 1)) zero_sample = \<lparr> L = NaN, R = NaN \<rparr>"
    by (simp add: gain_hot apply_gain_any_NaN)
  have u: "apply_gain (gain libm_c99 params_hot (Fin 1)) unit_sample = \<lparr> L = NaN, R = NaN \<rparr>"
    by (simp add: gain_hot apply_gain_any_NaN)
  from impulse_run [OF params_fields(7) params_fields(8) z] S mastergain_hot u
  show ?thesis by simp
qed

section \<open>The delay of the output against the input\<close>

text \<open>
  Claim C3, as the code has it.  With a delay buffer of \<open>S \<ge> 2\<close> slots, output sample
  \<open>n\<close> is input sample \<open>n - (S - 1)\<close> times the gain that the side chain holds at sample
  \<open>n\<close>, and zero times that gain for \<open>n < S - 1\<close>: the delay is \<open>S - 1\<close> samples, one
  less than the buffer length.  The product is the single-precision product of the
  program, and the gain is the one the program computes with its C library.  For an
  input that is zero after sample 0, the impulse leaves at position \<open>S - 1\<close>; every other
  output sample is zero times its gain.
\<close>

theorem output_is_delayed_input:
  assumes "delaybuf_ok al" and "out_ok al" and "out_samples_ok al"
    and "size_snd s = int (length (samples s))"
    and "2 \<le> delaybufsize s p"
  shows "\<exists>out. sf_compressor al s p = (Inr (Some out), {OutSnd, OutSamples}) \<and>
           length (samples out) = 32 * (length (samples s) div 32) \<and>
           length (gains (clib al) s p) = length (samples out) \<and>
           (\<forall>n < length (samples out).
              samples out ! n =
                apply_gain (gains (clib al) s p ! n)
                  (if n < nat (delaybufsize s p) - 1 then \<lparr> L = 0, R = 0 \<rparr>
                   else samples s ! (n - (nat (delaybufsize s p) - 1)))) \<and>
           ((\<forall>i < length (samples s). 0 < i \<longrightarrow> samples s ! i = \<lparr> L = 0, R = 0 \<rparr>) \<longrightarrow>
            (\<forall>n < length (samples out).
               samples out ! n =
                 (if n = nat (delaybufsize s p) - 1 then apply_gain (gains (clib al) s p ! n) (samples s ! 0)
                  else if is_finite (gains (clib al) s p ! n) then \<lparr> L = 0, R = 0 \<rparr>
                  else \<lparr> L = NaN, R = NaN \<rparr>)))"
proof -
  let ?S = "nat (delaybufsize s p)"
  let ?g = "gains (clib al) s p"
  from run_samples [OF assms] obtain out
    where o: "sf_compressor al s p = (Inr (Some out), {OutSnd, OutSamples})"
      and len: "length (samples out) = 32 * (length (samples s) div 32)"
      and lg: "length ?g = length (samples out)"
      and n0: "\<forall>n < length (samples out).
                samples out ! n =
                  apply_gain (?g ! n) (if n < ?S - 1 then zero_sample else samples s ! (n - (?S - 1)))"
    by blast
  have nth: "samples out ! n =
      apply_gain (?g ! n) (if n < ?S - 1 then \<lparr> L = 0, R = 0 \<rparr> else samples s ! (n - (?S - 1)))"
    if "n < length (samples out)" for n
    using n0 that by (simp add: zero_sample_def)
  note z0 = apply_gain_zero_rec
  have imp: "samples out ! n =
      (if n = ?S - 1 then apply_gain (?g ! n) (samples s ! 0)
       else if is_finite (?g ! n) then \<lparr> L = 0, R = 0 \<rparr> else \<lparr> L = NaN, R = NaN \<rparr>)"
    if z: "\<forall>i < length (samples s). 0 < i \<longrightarrow> samples s ! i = \<lparr> L = 0, R = 0 \<rparr>"
      and n: "n < length (samples out)" for n
  proof -
    from n len have nl: "n < length (samples s)" by simp
    consider "n < ?S - 1" | "n = ?S - 1" | "?S - 1 < n" by linarith
    then show ?thesis
    proof cases
      case 1
      then show ?thesis using nth [OF n] by (simp add: z0)
    next
      case 2
      then show ?thesis using nth [OF n] by simp
    next
      case 3
      then have "0 < n - (?S - 1)" "n - (?S - 1) < length (samples s)" using nl by simp_all
      with z have "samples s ! (n - (?S - 1)) = \<lparr> L = 0, R = 0 \<rparr>" by blast
      with 3 show ?thesis using nth [OF n] by (simp add: z0)
    qed
  qed
  from o len lg nth imp show ?thesis by blast
qed

text \<open>
  Against claim C3 as stated: a unit impulse at 64 Hz with a pre-delay of 1/4 s (a delay
  buffer of \<open>S = 16\<close> slots), half wet with a post-gain of 20 dB.  The gain is 5.5 at
  every sample; the impulse leaves at position 15, and position 16 is zero.
\<close>

theorem impulse_delay_counterexample:
  "delaybufsize snd_impulse params_mix = 16 \<and>
   sf_compressor al_ok snd_impulse params_mix =
     (Inr (Some \<lparr> samples = replicate 15 \<lparr> L = 0, R = 0 \<rparr> @ \<lparr> L = Fin (11 / 2), R = Fin (11 / 2) \<rparr> #
                               replicate 16 \<lparr> L = 0, R = 0 \<rparr>,
                  size_snd = 0, rate = 0 \<rparr>),
      {OutSnd, OutSamples})"
proof -
  have S: "delaybufsize snd_impulse params_mix = 16"
    by (rule delaybufsize_impulse) (rule params_fields)
  have z: "apply_gain (gain libm_c99 params_mix (Fin 1)) zero_sample = \<lparr> L = 0, R = 0 \<rparr>"
    by (simp add: gain_mix apply_gain_zero_finite)
  from impulse_run [OF params_fields(4) params_fields(5) z] S
  show ?thesis by (simp add: gain_mix apply_gain_mix_unit)
qed

theorem output_is_delayed_input_witness:
  "delaybuf_ok al_ok \<and> out_ok al_ok \<and> out_samples_ok al_ok \<and>
   size_snd snd_impulse = int (length (samples snd_impulse)) \<and>
   delaybufsize snd_impulse params_mix = 16 \<and>
   (\<exists>out. sf_compressor al_ok snd_impulse params_mix = (Inr (Some out), {OutSnd, OutSamples}) \<and>
      length (samples out) = 32 \<and>
      samples out ! 14 = \<lparr> L = 0, R = 0 \<rparr> \<and>
      samples out ! 15 = \<lparr> L = Fin (11 / 2), R = Fin (11 / 2) \<rparr> \<and>
      samples out ! 16 = \<lparr> L = 0, R = 0 \<rparr>)"
proof -
  have S: "delaybufsize snd_impulse params_mix = 16"
    by (rule delaybufsize_impulse) (rule params_fields)
  then have h5: "2 \<le> delaybufsize snd_impulse params_mix" by simp
  have g: "gains libm_c99 snd_impulse params_mix = replicate 32 (Fin (11 / 2))"
    by (simp add: gains_impulse params_fields gain_mix)
  have i: "\<forall>i < length (samples snd_impulse). 0 < i \<longrightarrow> samples snd_impulse ! i = \<lparr> L = 0, R = 0 \<rparr>"
    by (auto simp add: snd_impulse_def zero_sample_def nth_Cons')
  have s0: "samples snd_impulse ! 0 = unit_sample" by (simp add: snd_impulse_def)
  have a0: "apply_gain (Fin (11 / 2)) \<lparr> L = 1, R = 1 \<rparr> = \<lparr> L = Fin (11 / 2), R = Fin (11 / 2) \<rparr>"
    using apply_gain_mix_unit by (simp add: unit_sample_def)
  from output_is_delayed_input [OF impulse_hyps(1-4) h5]
  obtain out where o: "sf_compressor al_ok snd_impulse params_mix = (Inr (Some out), {OutSnd, OutSamples})"
    and l: "length (samples out) = 32 * (length (samples snd_impulse) div 32)"
    and z: "(\<forall>i < length (samples snd_impulse). 0 < i \<longrightarrow> samples snd_impulse ! i = \<lparr> L = 0, R = 0 \<rparr>) \<longrightarrow>
            (\<forall>n < length (samples out).
               samples out ! n =
                 (if n = nat (delaybufsize snd_impulse params_mix) - 1
                  then apply_gain (gains (clib al_ok) snd_impulse params_mix ! n) (samples snd_impulse ! 0)
                  else if is_finite (gains (clib al_ok) snd_impulse params_mix ! n) then \<lparr> L = 0, R = 0 \<rparr>
                  else \<lparr> L = NaN, R = NaN \<rparr>))"
    by blast
  from l have l32: "length (samples out) = 32" by (simp add: impulse_hyps)
  from z i have n: "\<forall>n < length (samples out).
               samples out ! n =
                 (if n = nat (delaybufsize snd_impulse params_mix) - 1
                  then apply_gain (gains (clib al_ok) snd_impulse params_mix ! n) (samples snd_impulse ! 0)
                  else if is_finite (gains (clib al_ok) snd_impulse params_mix ! n) then \<lparr> L = 0, R = 0 \<rparr>
                  else \<lparr> L = NaN, R = NaN \<rparr>)" by blast
  have a: "samples out ! 14 = \<lparr> L = 0, R = 0 \<rparr>"
    using n l32 by (simp add: S impulse_hyps g is_finite_def)
  have b: "samples out ! 15 = \<lparr> L = Fin (11 / 2), R = Fin (11 / 2) \<rparr>"
    using n l32 by (simp add: S impulse_hyps g impulse_samples a0)
  have c: "samples out ! 16 = \<lparr> L = 0, R = 0 \<rparr>"
    using n l32 by (simp add: S impulse_hyps g is_finite_def)
  from impulse_hyps(1-4) S o l32 a b c show ?thesis by blast
qed

section \<open>The dry signal\<close>

text \<open>
  Claim C1, as the code has it.  With \<^verbatim>\<open>wet = 0\<close> the gain of a sample is
  \<^verbatim>\<open>1 + 0 * mastergain * premixgain\<close>: 1 when that product is finite, NaN when
  \<^verbatim>\<open>mastergain\<close> or \<^verbatim>\<open>premixgain\<close> is an infinity or NaN.  With a delay buffer of
  \<open>S \<ge> 2\<close> slots, output sample \<open>n\<close> is then input sample \<open>n - (S - 1)\<close> for \<open>n \<ge> S - 1\<close>
  and zero before that where the gain is 1, and NaN on both channels where the gain is
  NaN: the output is the input shifted by the pre-delay, not the input.
\<close>

theorem wet0_output_is_delayed_input:
  assumes "delaybuf_ok al" and "out_ok al" and "out_samples_ok al"
    and "size_snd s = int (length (samples s))"
    and "2 \<le> delaybufsize s p"
    and "wet p = 0"
    and "\<forall>x \<in> set (samples s). float_sample x"
  shows "\<exists>out. sf_compressor al s p = (Inr (Some out), {OutSnd, OutSamples}) \<and>
           length (samples out) = 32 * (length (samples s) div 32) \<and>
           length (gains (clib al) s p) = length (samples out) \<and>
           (\<forall>n < length (samples out).
              (gains (clib al) s p ! n = Fin 1 \<or> gains (clib al) s p ! n = NaN) \<and>
              samples out ! n =
                (if gains (clib al) s p ! n = Fin 1
                 then (if n < nat (delaybufsize s p) - 1 then \<lparr> L = 0, R = 0 \<rparr>
                       else samples s ! (n - (nat (delaybufsize s p) - 1)))
                 else \<lparr> L = NaN, R = NaN \<rparr>))"
proof -
  let ?S = "nat (delaybufsize s p)"
  let ?g = "gains (clib al) s p"
  from run_samples [OF assms(1-5)] obtain out
    where o: "sf_compressor al s p = (Inr (Some out), {OutSnd, OutSamples})"
      and len: "length (samples out) = 32 * (length (samples s) div 32)"
      and lg: "length ?g = length (samples out)"
      and n0: "\<forall>n < length (samples out).
                samples out ! n =
                  apply_gain (?g ! n) (if n < ?S - 1 then zero_sample else samples s ! (n - (?S - 1)))"
    by blast
  have "(?g ! n = Fin 1 \<or> ?g ! n = NaN) \<and>
        samples out ! n =
          (if ?g ! n = Fin 1
           then (if n < ?S - 1 then \<lparr> L = 0, R = 0 \<rparr> else samples s ! (n - (?S - 1)))
           else \<lparr> L = NaN, R = NaN \<rparr>)"
    if n: "n < length (samples out)" for n
  proof -
    let ?d = "if n < ?S - 1 then zero_sample else samples s ! (n - (?S - 1))"
    from n lg have ng: "n < length ?g" by simp
    from gains_wet0 [OF assms(6) ng] have c: "?g ! n = Fin 1 \<or> ?g ! n = NaN" .
    from n len have "n - (?S - 1) < length (samples s)" by simp
    then have "samples s ! (n - (?S - 1)) \<in> set (samples s)" by (rule nth_mem)
    with assms(7) have "float_sample (samples s ! (n - (?S - 1)))" by blast
    then have f: "float_sample ?d" by (simp add: unit_sample_float)
    from n0 n have e: "samples out ! n = apply_gain (?g ! n) ?d" by blast
    from c show ?thesis
    proof
      assume g1: "?g ! n = Fin 1"
      with e f have "samples out ! n = ?d" by (simp add: apply_gain_one)
      with g1 show ?thesis by (simp add: zero_sample_def)
    next
      assume gn: "?g ! n = NaN"
      with e have "samples out ! n = nan_sample" by (simp add: apply_gain_NaN)
      with gn show ?thesis by (simp add: nan_sample_def)
    qed
  qed
  with o len lg show ?thesis by blast
qed

theorem wet0_output_is_delayed_input_witness:
  "delaybuf_ok al_ok \<and> out_ok al_ok \<and> out_samples_ok al_ok \<and>
   size_snd snd_impulse = int (length (samples snd_impulse)) \<and>
   delaybufsize snd_impulse params_dry = 16 \<and> wet params_dry = 0 \<and>
   gains libm_c99 snd_impulse params_dry = replicate 32 (Fin 1) \<and>
   (\<exists>out. sf_compressor al_ok snd_impulse params_dry = (Inr (Some out), {OutSnd, OutSamples}) \<and>
      length (samples out) = 32 \<and>
      samples out ! 0 = \<lparr> L = 0, R = 0 \<rparr> \<and>
      samples out ! 15 = \<lparr> L = 1, R = 1 \<rparr> \<and>
      samples out ! 16 = \<lparr> L = 0, R = 0 \<rparr>)"
proof -
  have S: "delaybufsize snd_impulse params_dry = 16"
    by (rule delaybufsize_impulse) (rule params_fields)
  then have h5: "2 \<le> delaybufsize snd_impulse params_dry" by simp
  have g: "gains libm_c99 snd_impulse params_dry = replicate 32 (Fin 1)"
    by (simp add: gains_impulse params_fields gain_dry)
  from wet0_output_is_delayed_input [OF impulse_hyps(1-4) h5 params_fields(3) impulse_float]
  obtain out where o: "sf_compressor al_ok snd_impulse params_dry = (Inr (Some out), {OutSnd, OutSamples})"
    and l: "length (samples out) = 32 * (length (samples snd_impulse) div 32)"
    and n: "\<forall>n < length (samples out).
              (gains (clib al_ok) snd_impulse params_dry ! n = Fin 1 \<or>
               gains (clib al_ok) snd_impulse params_dry ! n = NaN) \<and>
              samples out ! n =
                (if gains (clib al_ok) snd_impulse params_dry ! n = Fin 1
                 then (if n < nat (delaybufsize snd_impulse params_dry) - 1 then \<lparr> L = 0, R = 0 \<rparr>
                       else samples snd_impulse ! (n - (nat (delaybufsize snd_impulse params_dry) - 1)))
                 else \<lparr> L = NaN, R = NaN \<rparr>)"
    by blast
  from l have l32: "length (samples out) = 32" by (simp add: impulse_hyps)
  have a: "samples out ! 0 = \<lparr> L = 0, R = 0 \<rparr>"
    using n l32 by (simp add: S impulse_hyps g)
  have b: "samples out ! 15 = \<lparr> L = 1, R = 1 \<rparr>"
    using n l32 by (simp add: S impulse_hyps g impulse_samples)
  have c: "samples out ! 16 = \<lparr> L = 0, R = 0 \<rparr>"
    using n l32 by (simp add: S impulse_hyps g impulse_samples)
  from impulse_hyps(1-4) S params_fields(3) g o l32 a b c show ?thesis by blast
qed

text \<open>
  Against claim C1 as stated: with \<^verbatim>\<open>wet = 0\<close> the unit impulse at sample 0 of
  \<open>snd_impulse\<close> is output at position 15 and position 0 holds zero; and with a post-gain
  of 800 dB in addition, every output sample is NaN.
\<close>

theorem wet0_identity_counterexample:
  "wet params_dry = 0 \<and> wet params_hot = 0 \<and>
   samples snd_impulse = \<lparr> L = 1, R = 1 \<rparr> # replicate 31 \<lparr> L = 0, R = 0 \<rparr> \<and>
   sf_compressor al_ok snd_impulse params_dry =
     (Inr (Some \<lparr> samples = replicate 15 \<lparr> L = 0, R = 0 \<rparr> @ \<lparr> L = 1, R = 1 \<rparr> #
                               replicate 16 \<lparr> L = 0, R = 0 \<rparr>,
                  size_snd = 0, rate = 0 \<rparr>),
      {OutSnd, OutSamples}) \<and>
   sf_compressor al_ok snd_impulse params_hot =
     (Inr (Some \<lparr> samples = replicate 32 \<lparr> L = NaN, R = NaN \<rparr>, size_snd = 0, rate = 0 \<rparr>),
      {OutSnd, OutSamples})"
proof -
  have z: "apply_gain (gain libm_c99 params_dry (Fin 1)) zero_sample = \<lparr> L = 0, R = 0 \<rparr>"
    by (simp add: gain_dry apply_gain_zero_finite)
  have u: "apply_gain (gain libm_c99 params_dry (Fin 1)) unit_sample = \<lparr> L = 1, R = 1 \<rparr>"
    using apply_gain_one [OF unit_sample_float(1)] by (simp add: gain_dry unit_sample_def)
  have d: "sf_compressor al_ok snd_impulse params_dry =
     (Inr (Some \<lparr> samples = replicate 15 \<lparr> L = 0, R = 0 \<rparr> @ \<lparr> L = 1, R = 1 \<rparr> #
                               replicate 16 \<lparr> L = 0, R = 0 \<rparr>,
                  size_snd = 0, rate = 0 \<rparr>),
      {OutSnd, OutSamples})"
    using impulse_run [OF params_fields(1) params_fields(2) z] by (simp add: u)
  have zh: "apply_gain (gain libm_c99 params_hot (Fin 1)) zero_sample = \<lparr> L = NaN, R = NaN \<rparr>"
    by (simp add: gain_hot apply_gain_any_NaN)
  have uh: "apply_gain (gain libm_c99 params_hot (Fin 1)) unit_sample = \<lparr> L = NaN, R = NaN \<rparr>"
    by (simp add: gain_hot apply_gain_any_NaN)
  have r: "replicate 15 x @ x # replicate 16 x = replicate 32 x" for x :: sf_sample_st
  proof -
    have "replicate 15 x @ x # replicate 16 x = replicate 15 x @ replicate (Suc 16) x"
      by (simp only: replicate_Suc)
    also have "\<dots> = replicate (15 + Suc 16) x" by (simp only: replicate_add)
    also have "15 + Suc 16 = (32::nat)" by simp
    finally show ?thesis .
  qed
  have h: "sf_compressor al_ok snd_impulse params_hot =
     (Inr (Some \<lparr> samples = replicate 32 \<lparr> L = NaN, R = NaN \<rparr>, size_snd = 0, rate = 0 \<rparr>),
      {OutSnd, OutSamples})"
    using impulse_run [OF params_fields(7) params_fields(8) zh] by (simp add: uh r)
  have i: "samples snd_impulse = \<lparr> L = 1, R = 1 \<rparr> # replicate 31 \<lparr> L = 0, R = 0 \<rparr>"
    by (simp add: snd_impulse_def unit_sample_def zero_sample_def)
  from params_fields(3) params_fields(9) i d h show ?thesis by blast
qed

section \<open>The range of the gain\<close>




lemma premixgain_c99_range:
  assumes "0 \<le> c" and "c \<le> 1"
  shows "\<exists>q. premixgain libm_c99 (Fin c) = Fin q \<and> 0 \<le> q \<and> q \<le> 1"
proof -
  from ang90_value obtain a where a: "ang90 = Fin a" "rnd a = a" "\<bar>a - pi / 2\<bar> \<le> 1 / 2 ^ 22"
    by blast
  have e: "(1::real) / 2 ^ 22 \<le> 1" by simp
  have a0: "0 \<le> a" "a \<le> pi" using a(3) pi_ge_two e by linarith+
  have ac: "0 \<le> a * c" "a * c \<le> a"
    using a0(1) assms by (simp_all add: mult_left_le)
  have "a * c \<le> 2 ^ 24" using ac(2) a0(2) pi_less_4 by simp
  with ac(1) have m: "fmul ang90 (Fin c) = Fin (rnd (a * c))" by (simp add: a(1) fl_small)
  have x: "0 \<le> rnd (a * c)" "rnd (a * c) \<le> pi"
  proof -
    show "0 \<le> rnd (a * c)" using ac(1) by (rule rnd_nonneg)
    have "rnd (a * c) \<le> rnd a" using ac by (rule rnd_mono)
    with a(2) a0(2) show "rnd (a * c) \<le> pi" by simp
  qed
  let ?s = "sin (rnd (a * c))"
  have s: "0 \<le> ?s" "?s \<le> 1" using x by (simp_all add: sin_ge_zero)
  have "(1::real) \<le> 2 ^ 24" by simp
  with s(2) have "?s \<le> 2 ^ 24" by linarith
  with s(1) have f: "fl ?s = Fin (rnd ?s)" by (rule fl_small)
  have "0 \<le> rnd ?s" using s(1) by (rule rnd_nonneg)
  moreover have "rnd ?s \<le> rnd 1" using s by (rule rnd_mono)
  ultimately show ?thesis by (simp add: premixgain_def m f)
qed




section \<open>The size of the pre-delay buffer\<close>

lemma rnd_predelay_default: "rnd (6 / 1000) = 12884902 / 2 ^ 31"
proof -
  have p: "(2::real) powr (of_int (- 8) - 23) = 1 / 2 ^ 31"
    using powr_int [of "2::real" "- 31"] by simp
  have a: "(2::real) powr of_int (- 8) \<le> \<bar>6 / 1000\<bar>"
    using powr_int [of "2::real" "- 8"] by simp
  have b: "\<bar>6 / 1000 :: real\<bar> < 2 powr (of_int (- 8) + 1)"
    using powr_int [of "2::real" "- 7"] by simp
  have c: "- 126 \<le> (- 8::int)" by simp
  have h: "rhe ((6 / 1000) / (1 / 2 ^ 31)) = 12884902" by (simp add: rhe_def)
  have "rnd (6 / 1000) = of_int (rhe ((6 / 1000) / (1 / 2 ^ 31))) * (1 / 2 ^ 31)"
    using rnd_eval [OF a b c] by (simp only: p)
  then show ?thesis unfolding h by simp
qed

lemma rnd_hundredth: "rnd (1 / 100) = 10737418 / 2 ^ 30"
proof -
  have p: "(2::real) powr (of_int (- 7) - 23) = 1 / 2 ^ 30"
    using powr_int [of "2::real" "- 30"] by simp
  have a: "(2::real) powr of_int (- 7) \<le> \<bar>1 / 100\<bar>"
    using powr_int [of "2::real" "- 7"] by simp
  have b: "\<bar>1 / 100 :: real\<bar> < 2 powr (of_int (- 7) + 1)"
    using powr_int [of "2::real" "- 6"] by simp
  have c: "- 126 \<le> (- 7::int)" by simp
  have h: "rhe ((1 / 100) / (1 / 2 ^ 30)) = 10737418" by (simp add: rhe_def)
  have "rnd (1 / 100) = of_int (rhe ((1 / 100) / (1 / 2 ^ 30))) * (1 / 2 ^ 30)"
    using rnd_eval [OF a b c] by (simp only: p)
  then show ?thesis unfolding h by simp
qed

lemma rnd_binade_8:
  assumes "256 \<le> x" and "x < 512"
  shows "rnd x = of_int (rhe (x / (1 / 2 ^ 15))) * (1 / 2 ^ 15)"
proof -
  have p: "(2::real) powr (of_int 8 - 23) = 1 / 2 ^ 15"
    using powr_int [of "2::real" "- 15"] by simp
  have a: "(2::real) powr of_int 8 \<le> \<bar>x\<bar>" using assms by simp
  have b: "\<bar>x\<bar> < 2 powr (of_int 8 + 1)" using assms by simp
  have c: "- 126 \<le> (8::int)" by simp
  show ?thesis using rnd_eval [OF a b c] by (simp only: p)
qed

lemma rnd_product_default: "rnd (44100 * (12884902 / 2 ^ 31)) = 8670413 / 2 ^ 15"
proof -
  have h: "rhe ((44100 * (12884902 / 2 ^ 31)) / (1 / 2 ^ 15)) = 8670413" by (simp add: rhe_def)
  have "rnd (44100 * (12884902 / 2 ^ 31)) =
        of_int (rhe ((44100 * (12884902 / 2 ^ 31)) / (1 / 2 ^ 15))) * (1 / 2 ^ 15)"
    by (rule rnd_binade_8) simp_all
  then show ?thesis unfolding h by simp
qed

lemma rnd_product_hundredth: "rnd (44100 * (10737418 / 2 ^ 30)) = 441"
proof -
  have h: "rhe ((44100 * (10737418 / 2 ^ 30)) / (1 / 2 ^ 15)) = 14450688" by (simp add: rhe_def)
  have "rnd (44100 * (10737418 / 2 ^ 30)) =
        of_int (rhe ((44100 * (10737418 / 2 ^ 30)) / (1 / 2 ^ 15))) * (1 / 2 ^ 15)"
    by (rule rnd_binade_8) simp_all
  then show ?thesis unfolding h by simp
qed

lemma frate_44100: "rate s = 44100 \<Longrightarrow> frate s = Fin 44100"
  using frate_exact [of s] by simp

lemma product_default:
  assumes "rate s = 44100"
  shows "fmul (frate s) (Fin (predelay sf_compressor_defaults_f)) = Fin (8670413 / 2 ^ 15)"
proof -
  have "fl (44100 * (12884902 / 2 ^ 31)) = Fin (rnd (44100 * (12884902 / 2 ^ 31)))"
    by (intro fl_small) simp_all
  then have "fmul (Fin 44100) (Fin (12884902 / 2 ^ 31)) = Fin (8670413 / 2 ^ 15)"
    by (simp only: fmul.simps rnd_product_default)
  moreover have "predelay sf_compressor_defaults_f = 12884902 / 2 ^ 31"
    using rnd_predelay_default by (simp add: sf_compressor_defaults_f_def)
  ultimately show ?thesis by (simp only: frate_44100 [OF assms])
qed

lemma delaybufsize_default:
  assumes "rate s = 44100"
  shows "delaybufsize s sf_compressor_defaults_f = 264"
  unfolding delaybufsize_def product_default [OF assms] by (simp add: float_to_int_def)

text \<open>
  The product is rounded to single precision before it is truncated: at 44100 Hz the
  pre-delay 0.01f gives 441 slots, although 44100 times the value of 0.01f is below 441.
\<close>

lemma delaybufsize_hundredth:
  "delaybufsize snd_ones (sf_compressor_defaults_f\<lparr> predelay := rnd (1 / 100) \<rparr>) = 441 \<and>
   44100 * rnd (1 / 100) < 441"
proof -
  have "fl (44100 * (10737418 / 2 ^ 30)) = Fin (rnd (44100 * (10737418 / 2 ^ 30)))"
    by (intro fl_small) simp_all
  then have "fmul (Fin 44100) (Fin (10737418 / 2 ^ 30)) = Fin 441"
    by (simp only: fmul.simps rnd_product_hundredth)
  moreover have "frate snd_ones = Fin 44100" by (rule frate_44100) (simp add: snd_ones_def)
  ultimately have "delaybufsize snd_ones (sf_compressor_defaults_f\<lparr> predelay := rnd (1 / 100) \<rparr>) = 441"
    by (simp add: delaybufsize_def rnd_hundredth float_to_int_def)
  then show ?thesis by (simp add: rnd_hundredth)
qed

text \<open>
  A product beyond the range of \<^verbatim>\<open>int\<close>: at 44100 Hz a pre-delay of 1000000 s makes
  \<^verbatim>\<open>delaybufsize\<close> negative, the allocation of the delay buffer fails and the call returns
  \<^verbatim>\<open>NULL\<close>.
\<close>

lemma huge_predelay_returns_null:
  "delaybufsize snd_ones (sf_compressor_defaults_f\<lparr> predelay := 1000000 \<rparr>) = - (2 ^ 31) \<and>
   sf_compressor al_ok snd_ones (sf_compressor_defaults_f\<lparr> predelay := 1000000 \<rparr>) = (Inr None, {})"
proof -
  let ?p = "sf_compressor_defaults_f\<lparr> predelay := 1000000 \<rparr>"
  let ?x = "44100 * 1000000 :: real"
  have "?x \<le> flt_max" by (simp add: flt_max_def)
  then have f: "fl ?x = Fin (rnd ?x)" by (intro fl_in_range) simp_all
  have "rnd (2 powr of_int 31) \<le> rnd ?x" by (intro rnd_mono) simp_all
  then have "2 ^ 31 \<le> rnd ?x" using rnd_pow2 [of 31] by simp
  then have "(2::int) ^ 31 \<le> \<lfloor>rnd ?x\<rfloor>" by (simp add: le_floor_iff)
  moreover have "frate snd_ones = Fin 44100" by (rule frate_44100) (simp add: snd_ones_def)
  ultimately have d: "delaybufsize snd_ones ?p = - (2 ^ 31)"
    using f by (simp add: delaybufsize_def float_to_int_def Let_def)
  then have "\<not> 0 \<le> delaybufsize snd_ones ?p" by simp
  then have "sf_compressor al_ok snd_ones ?p = (Inr None, {})"
    by (simp add: sf_compressor_def malloc_res_def)
  with d show ?thesis by blast
qed



lemma ones_hyps:
  "size_snd snd_ones = int (length (samples snd_ones))" "rate snd_ones = 44100"
  "length (samples snd_ones) = 32"
  by (simp_all add: snd_ones_def)


section \<open>A delay buffer of fewer than two slots\<close>

lemma sample_loop_fault:
  "sample_body lm s p dbs sdg er st = Inl f \<Longrightarrow> 0 < n \<Longrightarrow> sample_loop n lm s p dbs sdg er st = Inl f"
  by (cases n) simp_all

lemma chunk_loop_fault:
  "chunk_body lm s p dbs st = Inl f \<Longrightarrow> 0 < c \<Longrightarrow> chunk_loop c lm s p dbs st = Inl f"
  by (cases c) simp_all

lemma first_sample_fault:
  assumes "dbs \<le> 1" and "0 < length (samples s)"
  shows "sample_body lm s p dbs sdg er
           ((init_state dbs)\<lparr> env := e \<rparr>) = Inl OutOfBounds"
proof (cases "dbs \<le> 0")
  case True
  then show ?thesis using assms by (simp add: sample_body_def init_state_def)
next
  case False
  with assms have "dbs = 1" by simp
  then show ?thesis using assms by (simp add: sample_body_def init_state_def)
qed

lemma small_buffer_fault:
  assumes "delaybuf_ok al" and "out_ok al" and "out_samples_ok al"
    and "0 \<le> delaybufsize s p" and "delaybufsize s p \<le> 1"
    and "0 < chunks s" and "0 < length (samples s)"
  shows "sf_compressor al s p = (Inl OutOfBounds, {DelayBuf, OutSnd, OutSamples})"
proof -
  let ?dbs = "delaybufsize s p"
  have "chunk_body (clib al) s p ?dbs (init_state ?dbs) = Inl OutOfBounds"
    unfolding chunk_body_def Let_def
    by (rule sample_loop_fault [OF first_sample_fault [OF assms(5) assms(7)]])
       (simp add: samplesperchunk_def)
  then have "chunk_loop (nat (chunks s)) (clib al) s p ?dbs (init_state ?dbs) = Inl OutOfBounds"
    using assms(6) by (intro chunk_loop_fault) simp_all
  then show ?thesis
    using assms(1-4) by (auto simp add: sf_compressor_def malloc_res_def)
qed

lemma zeros_hyps:
  "size_snd snd_zeros = int (length (samples snd_zeros))" "rate snd_zeros = 44100"
  "length (samples snd_zeros) = 32" "0 < chunks snd_zeros" "0 < length (samples snd_zeros)"
  "chunks snd_zeros = 1"
  by (simp_all add: snd_zeros_def chunks_def samplesperchunk_def)

lemma delaybufsize_nodelay: "delaybufsize snd_zeros params_nodelay = 0"
  by (simp add: delaybufsize_def frate_44100 [OF zeros_hyps(2)] params_nodelay_def float_to_int_def)

lemma nodelay_run:
  "sf_compressor al_ok snd_zeros params_nodelay = (Inl OutOfBounds, {DelayBuf, OutSnd, OutSamples})"
proof -
  have "0 \<le> delaybufsize snd_zeros params_nodelay" "delaybufsize snd_zeros params_nodelay \<le> 1"
    by (simp_all add: delaybufsize_nodelay)
  with impulse_hyps(1-3) show ?thesis
    using zeros_hyps(4) zeros_hyps(5) by (rule small_buffer_fault)
qed


section \<open>Silent input\<close>

text \<open>
  Claim C7 at \<^verbatim>\<open>predelay = 0\<close>.  The delay buffer then has no slot: the first iteration
  of the sample loop stores to \<^verbatim>\<open>delaybuf[0]\<close> and loads \<^verbatim>\<open>delaybuf[1]\<close> outside the
  allocation (and would go on to \<^verbatim>\<open>% 0\<close>), so the call on 32 zero samples does not
  yield an all-zero buffer.  The same holds for every buffer of fewer than 2 slots
  (\<open>small_buffer_fault\<close>).  From 2 slots on, each output sample of a silent input is zero
  times the gain of that sample (\<open>silence_times_gain\<close>): zero where the gain is finite,
  NaN where it is not, as at every sample of \<open>silence_nan\<close>.
\<close>

theorem no_predelay_fault:
  "predelay params_nodelay = 0 \<and> delaybufsize snd_zeros params_nodelay = 0 \<and>
   samples snd_zeros = replicate 32 \<lparr> L = 0, R = 0 \<rparr> \<and>
   sf_compressor al_ok snd_zeros params_nodelay = (Inl OutOfBounds, {DelayBuf, OutSnd, OutSamples})"
proof -
  have "predelay params_nodelay = 0" by (simp add: params_nodelay_def)
  moreover have "samples snd_zeros = replicate 32 \<lparr> L = 0, R = 0 \<rparr>"
    by (simp add: snd_zeros_def zero_sample_def)
  ultimately show ?thesis using delaybufsize_nodelay nodelay_run by blast
qed

lemma inputmax_zero: "inputmax zero_sample = Fin 0"
  by (simp add: inputmax_def absf_def zero_sample_def zero_cfloat_def fgt_def)

lemma attenuation_near_silence: "flt (inputmax x) (fl 0.0001) \<Longrightarrow> attenuation lm p x = Fin 1"
  by (simp add: attenuation_def)

lemma silence_times_gain:
  assumes "delaybuf_ok al" and "out_ok al" and "out_samples_ok al"
    and "size_snd s = int (length (samples s))"
    and "2 \<le> delaybufsize s p"
    and zero: "\<forall>i < length (samples s). samples s ! i = zero_sample"
  shows "sf_compressor al s p =
           (Inr (Some ((fresh_snd al)\<lparr> samples :=
                  map (\<lambda>g. if is_finite g then zero_sample else nan_sample) (gains (clib al) s p) \<rparr>)),
            {OutSnd, OutSamples})"
proof -
  let ?S = "nat (delaybufsize s p)"
  let ?g = "gains (clib al) s p"
  let ?N = "32 * (length (samples s) div 32)"
  have lg: "length ?g = ?N" using assms(4) by (rule length_gains)
  have "delayed_out s ?S ?g 0 = map (\<lambda>g. if is_finite g then zero_sample else nan_sample) ?g"
  proof (rule nth_equalityI)
    show "length (delayed_out s ?S ?g 0) =
          length (map (\<lambda>g. if is_finite g then zero_sample else nan_sample) ?g)"
      by (simp add: length_delayed_out)
  next
    fix i assume "i < length (delayed_out s ?S ?g 0)"
    then have i: "i < length ?g" by (simp add: length_delayed_out)
    with lg have il: "i < length (samples s)" by simp
    have "delayed s ?S i = zero_sample"
    proof (cases "i + 1 < ?S")
      case True
      then show ?thesis by (simp add: delayed_def)
    next
      case False
      from il assms(5) have "i + 1 - ?S < length (samples s)" by simp
      with zero have "samples s ! (i + 1 - ?S) = zero_sample" by blast
      with False show ?thesis by (simp add: delayed_def)
    qed
    with i show "delayed_out s ?S ?g 0 ! i =
                 map (\<lambda>g. if is_finite g then zero_sample else nan_sample) ?g ! i"
      by (simp add: nth_delayed_out apply_gain_zero)
  qed
  with sf_compressor_run [OF assms(1-5)] show ?thesis by simp
qed

lemma gains_hot: "gains libm_c99 s params_hot = replicate (length (gains libm_c99 s params_hot)) NaN"
proof (rule nth_equalityI)
  show "length (gains libm_c99 s params_hot) = length (replicate (length (gains libm_c99 s params_hot)) NaN)"
    by simp
next
  fix n assume n: "n < length (gains libm_c99 s params_hot)"
  from gains_form [OF n] obtain cg where "gains libm_c99 s params_hot ! n = gain libm_c99 params_hot cg" ..
  with n show "gains libm_c99 s params_hot ! n = replicate (length (gains libm_c99 s params_hot)) NaN ! n"
    by (simp add: gain_hot)
qed

lemma delaybufsize_zeros_hot: "delaybufsize snd_zeros params_hot = 11025"
proof -
  have "fl 11025 = Fin 11025" using fl_of_int [of 11025] by simp
  then show ?thesis
    by (simp add: delaybufsize_def frate_44100 [OF zeros_hyps(2)] params_fields float_to_int_def)
qed

text \<open>Silence at 44100 Hz, fully dry with a post-gain of 800 dB: every output sample is NaN.\<close>

lemma silence_nan:
  "sf_compressor al_ok snd_zeros params_hot =
     (Inr (Some \<lparr> samples = replicate 32 \<lparr> L = NaN, R = NaN \<rparr>, size_snd = 0, rate = 0 \<rparr>),
      {OutSnd, OutSamples})"
proof -
  have z: "\<forall>i < length (samples snd_zeros). samples snd_zeros ! i = zero_sample"
    by (simp add: snd_zeros_def)
  have S: "2 \<le> delaybufsize snd_zeros params_hot" by (simp add: delaybufsize_zeros_hot)
  have l: "length (gains libm_c99 snd_zeros params_hot) = 32"
    using length_gains [OF zeros_hyps(1)] by (simp add: zeros_hyps)
  have g: "gains libm_c99 snd_zeros params_hot = replicate 32 NaN"
    using gains_hot [of snd_zeros] by (simp only: l)
  from silence_times_gain [OF impulse_hyps(1-3) zeros_hyps(1) S z]
  show ?thesis by (simp add: impulse_hyps g al_ok_def is_finite_def nan_sample_def)
qed

section \<open>The returned sound\<close>

lemma sample_body_length:
  "sample_body lm s p dbs sdg er st = Inr st' \<Longrightarrow> length (out_samples st') = length (out_samples st) + 1"
  by (auto simp add: sample_body_def Let_def split: if_splits)

lemma sample_loop_length:
  "sample_loop n lm s p dbs sdg er st = Inr st' \<Longrightarrow> length (out_samples st') = length (out_samples st) + n"
proof (induction n arbitrary: st)
  case 0
  then show ?case by simp
next
  case (Suc n)
  then show ?case
    by (auto split: sum.splits dest!: sample_body_length)
qed

lemma chunk_body_length:
  "chunk_body lm s p dbs st = Inr st' \<Longrightarrow>
   length (out_samples st') = length (out_samples st) + samplesperchunk"
  unfolding chunk_body_def Let_def by (drule sample_loop_length) simp

lemma chunk_loop_length:
  "chunk_loop c lm s p dbs st = Inr st' \<Longrightarrow>
   length (out_samples st') = length (out_samples st) + c * samplesperchunk"
proof (induction c arbitrary: st)
  case 0
  then show ?case by simp
next
  case (Suc c)
  then show ?case
    by (auto split: sum.splits dest!: chunk_body_length)
qed

text \<open>
  Claim C4 against the code.  Whenever \<^verbatim>\<open>sf_compressor\<close> returns a sound, its sample
  array holds \<open>32 * (n div 32)\<close> samples, but its \<^verbatim>\<open>rate\<close> and \<^verbatim>\<open>size\<close> fields are the
  ones of the object that \<^verbatim>\<open>sf_snd_new()\<close> created: \<^verbatim>\<open>sf_compressor\<close> assigns
  \<^verbatim>\<open>out->samples\<close> only, so the sample rate of the input is not carried over.
\<close>

theorem output_rate_and_size_not_assigned:
  assumes "sf_compressor al s p = (Inr (Some out), live)"
  shows "rate out = rate (fresh_snd al) \<and> size_snd out = size_snd (fresh_snd al) \<and>
         (size_snd s = int (length (samples s)) \<longrightarrow>
          length (samples out) = 32 * (length (samples s) div 32))"
proof -
  from assms obtain st where
    run: "chunk_loop (nat (chunks s)) (clib al) s p (delaybufsize s p) (init_state (delaybufsize s p)) = Inr st"
    and out: "out = (fresh_snd al)\<lparr> samples := out_samples st \<rparr>"
    by (auto simp add: sf_compressor_def malloc_res_def split: if_splits sum.splits)
  from chunk_loop_length [OF run]
  have "length (out_samples st) = nat (chunks s) * samplesperchunk"
    by (simp add: init_state_def)
  then have "length (samples out) = 32 * (length (samples s) div 32)"
    if "size_snd s = int (length (samples s))"
    using chunks_wf [OF that] out by (simp add: samplesperchunk_def)
  with out show ?thesis by simp
qed

theorem output_rate_and_size_not_assigned_witness:
  "\<exists>out live. sf_compressor al_ok snd_ones sf_compressor_defaults_f = (Inr (Some out), live) \<and>
     size_snd snd_ones = int (length (samples snd_ones)) \<and>
     rate out = 0 \<and> size_snd out = 0 \<and> rate snd_ones = 44100 \<and> length (samples out) = 32"
proof -
  have h5: "2 \<le> delaybufsize snd_ones sf_compressor_defaults_f"
    using delaybufsize_default [OF ones_hyps(2)] by simp
  let ?out = "(fresh_snd al_ok)\<lparr> samples :=
      delayed_out snd_ones (nat (delaybufsize snd_ones sf_compressor_defaults_f))
        (gains (clib al_ok) snd_ones sf_compressor_defaults_f) 0 \<rparr>"
  have run: "sf_compressor al_ok snd_ones sf_compressor_defaults_f = (Inr (Some ?out), {OutSnd, OutSamples})"
    using impulse_hyps(1-3) ones_hyps(1) h5 by (rule sf_compressor_run)
  from output_rate_and_size_not_assigned [OF run] ones_hyps(1)
  have "rate ?out = rate (fresh_snd al_ok)" "size_snd ?out = size_snd (fresh_snd al_ok)"
    "length (samples ?out) = 32 * (length (samples snd_ones) div 32)"
    by blast+
  then have "rate ?out = 0" "size_snd ?out = 0" "length (samples ?out) = 32"
    by (simp_all add: al_ok_def snd_ones_def)
  with ones_hyps(2) show ?thesis using run ones_hyps(1) by blast
qed

end
